theory Spec2Isabelle
  imports Main "HOL-Library.Word" "HOL-Library.AList"
begin

unbundle bit_operations_syntax

section \<open>Text: characters and the functions of package strings\<close>


definition is_digit :: "char \<Rightarrow> bool" where
  "is_digit c \<longleftrightarrow> 48 \<le> (of_char c :: nat) \<and> (of_char c :: nat) \<le> 57"

definition is_upper :: "char \<Rightarrow> bool" where
  "is_upper c \<longleftrightarrow> 65 \<le> (of_char c :: nat) \<and> (of_char c :: nat) \<le> 90"

definition is_lower :: "char \<Rightarrow> bool" where
  "is_lower c \<longleftrightarrow> 97 \<le> (of_char c :: nat) \<and> (of_char c :: nat) \<le> 122"

text \<open>The class \<open>\w\<close>: \<open>[0-9A-Za-z_]\<close>.\<close>

definition is_word_char :: "char \<Rightarrow> bool" where
  "is_word_char c \<longleftrightarrow> is_digit c \<or> is_upper c \<or> is_lower c \<or> c = CHR ''_''"

text \<open>Two ASCII characters are equal under \<open>(?i)\<close> when their lower-case forms
  are.\<close>

definition fold_case :: "char \<Rightarrow> char" where
  "fold_case c = (if is_upper c then char_of (of_char c + (32::nat)) else c)"

fun HasPrefix :: "string \<Rightarrow> string \<Rightarrow> bool" where
  "HasPrefix s [] = True"
| "HasPrefix [] (x # xs) = False"
| "HasPrefix (c # cs) (x # xs) = (c = x \<and> HasPrefix cs xs)"

text \<open>
  The white space of \<open>unicode.IsSpace\<close> in UTF-8: tab, line feed, vertical tab, form
  feed, carriage return, space, U+0085, U+00A0, U+1680, U+2000 to U+200A, U+2028, U+2029,
  U+202F, U+205F, U+3000.
\<close>

definition space_encodings :: "string list" where
  "space_encodings =
     [[CHR 0x09], [CHR 0x0A], [CHR 0x0B], [CHR 0x0C], [CHR 0x0D], [CHR 0x20],
      [CHR 0xC2, CHR 0x85], [CHR 0xC2, CHR 0xA0], [CHR 0xE1, CHR 0x9A, CHR 0x80],
      [CHR 0xE2, CHR 0x80, CHR 0x80], [CHR 0xE2, CHR 0x80, CHR 0x81],
      [CHR 0xE2, CHR 0x80, CHR 0x82], [CHR 0xE2, CHR 0x80, CHR 0x83],
      [CHR 0xE2, CHR 0x80, CHR 0x84], [CHR 0xE2, CHR 0x80, CHR 0x85],
      [CHR 0xE2, CHR 0x80, CHR 0x86], [CHR 0xE2, CHR 0x80, CHR 0x87],
      [CHR 0xE2, CHR 0x80, CHR 0x88], [CHR 0xE2, CHR 0x80, CHR 0x89],
      [CHR 0xE2, CHR 0x80, CHR 0x8A], [CHR 0xE2, CHR 0x80, CHR 0xA8],
      [CHR 0xE2, CHR 0x80, CHR 0xA9], [CHR 0xE2, CHR 0x80, CHR 0xAF],
      [CHR 0xE2, CHR 0x81, CHR 0x9F], [CHR 0xE3, CHR 0x80, CHR 0x80]]"

text \<open>The number of bytes of the member of \<open>encs\<close> that \<open>s\<close> starts with, 0 when
  it starts with none.\<close>

definition space_width :: "string list \<Rightarrow> string \<Rightarrow> nat" where
  "space_width encs s = (case filter (HasPrefix s) encs of [] \<Rightarrow> 0 | e # _ \<Rightarrow> length e)"

fun trim_start :: "string list \<Rightarrow> string \<Rightarrow> string" where
  "trim_start encs [] = []"
| "trim_start encs (c # cs) =
     (if space_width encs (c # cs) = 0 then c # cs
      else trim_start encs (drop (space_width encs (c # cs) - 1) cs))"

text \<open>
  \<open>strings.TrimSpace\<close>: the white space at the start is dropped rune by rune, then the
  white space at the end. A byte that starts no valid encoding is the rune U+FFFD, which
  is no white space, and the last rune of a string is a white space exactly when the
  string ends with one of the encodings.
\<close>

definition TrimSpace :: "string \<Rightarrow> string" where
  "TrimSpace s =
     rev (trim_start (map rev space_encodings) (rev (trim_start space_encodings s)))"

text \<open>\<open>strings.Contains(s, substr)\<close>.\<close>

fun strings_Contains :: "string \<Rightarrow> string \<Rightarrow> bool" where
  "strings_Contains [] x = HasPrefix [] x"
| "strings_Contains (c # cs) x = (HasPrefix (c # cs) x \<or> strings_Contains cs x)"

section \<open>Package regexp: the two patterns of parseKeywords\<close>

text \<open>
  The syntax tree of the fragment of RE2 syntax that \<open>parseKeywords\<close> compiles: literal
  characters (exact, or folded under \<open>(?i)\<close>), \<open>.\<close> without the \<open>s\<close> flag, \<open>\d\<close>,
  greedy \<open>*\<close> on such an atom, greedy \<open>?\<close>, concatenation, \<open>\b\<close>, and \<open>^\<close> and \<open>$\<close>
  under the \<open>m\<close> flag.
\<close>

datatype atom = Lit char | LitFold char | AnyNotNL | Digit

fun atom_ok :: "atom \<Rightarrow> char \<Rightarrow> bool" where
  "atom_ok (Lit x) c = (c = x)"
| "atom_ok (LitFold x) c = (fold_case c = fold_case x)"
| "atom_ok AnyNotNL c = (c \<noteq> CHR 0x0A)"
| "atom_ok Digit c = is_digit c"

datatype re = Eps | Atom atom | Star atom | Opt re | Seq re re
  | WordBoundary | BeginLine | EndLine

text \<open>
  A position in the text is the character before it (none at the start of the text) and
  the text from it on. \<open>step r p\<close> lists the positions at which a match of \<open>r\<close> that
  starts at \<open>p\<close> can end, in the order of preference of a backtracking matcher (the
  leftmost-first rule of package regexp): a greedy operator tries the longer match first.
\<close>

type_synonym pos = "char option \<times> string"

definition word_before :: "char option \<Rightarrow> bool" where
  "word_before p = (case p of None \<Rightarrow> False | Some c \<Rightarrow> is_word_char c)"

definition word_after :: "string \<Rightarrow> bool" where
  "word_after cs = (case cs of [] \<Rightarrow> False | c # _ \<Rightarrow> is_word_char c)"

fun step :: "re \<Rightarrow> pos \<Rightarrow> pos list" where
  "step Eps s = [s]"
| "step (Atom a) (p, []) = []"
| "step (Atom a) (p, c # cs) = (if atom_ok a c then [(Some c, cs)] else [])"
| "step (Star a) (p, []) = [(p, [])]"
| "step (Star a) (p, c # cs) =
     (if atom_ok a c then step (Star a) (Some c, cs) @ [(p, c # cs)] else [(p, c # cs)])"
| "step (Opt r) s = step r s @ [s]"
| "step (Seq r1 r2) s = concat (map (step r2) (step r1 s))"
| "step WordBoundary (p, cs) = (if word_before p \<noteq> word_after cs then [(p, cs)] else [])"
| "step BeginLine (p, cs) = (if p = None \<or> p = Some (CHR 0x0A) then [(p, cs)] else [])"
| "step EndLine (p, cs) = (if cs = [] \<or> hd cs = CHR 0x0A then [(p, cs)] else [])"

text \<open>
  \<open>FindStringSubmatch\<close>, read at index 1 as \<open>checkKeywords\<close> does: the start positions
  are tried from left to right, and at the first one with a match the preferred match is
  taken. In both patterns of \<open>parseKeywords\<close> the group 1 encloses the whole pattern
  apart from the zero-width \<open>^\<close> and \<open>$\<close>, so that \<open>s[1]\<close> is the text of the match.
  \<open>None\<close> is the nil result.
\<close>

fun find_from :: "re \<Rightarrow> char option \<Rightarrow> string \<Rightarrow> string option" where
  "find_from r p [] = (case step r (p, []) of [] \<Rightarrow> None | _ # _ \<Rightarrow> Some [])"
| "find_from r p (c # cs) =
     (case step r (p, c # cs) of
        [] \<Rightarrow> find_from r (Some c) cs
      | (q, rest) # _ \<Rightarrow> Some (take (Suc (length cs) - length rest) (c # cs)))"

definition FindStringSubmatch :: "re \<Rightarrow> string \<Rightarrow> string option" where
  "FindStringSubmatch r body = find_from r None body"

definition cat :: "re list \<Rightarrow> re" where
  "cat rs = foldr Seq rs Eps"

text \<open>\<open>(?im)^(.*\bKEYWORD.*)$\<close> with the keyword quoted by \<open>regexp.QuoteMeta\<close>: every
  character of the keyword is a literal, folded by the \<open>i\<close> flag. This is the
  pattern of package regexp for an ASCII keyword read on ASCII text.\<close>

definition literal_re :: "string \<Rightarrow> re" where
  "literal_re kw =
     cat ([BeginLine, Star AnyNotNL, WordBoundary] @ map (\<lambda>c. Atom (LitFold c)) kw
          @ [Star AnyNotNL, EndLine])"

text \<open>\<open>\d{1,3}\<close> is \<open>\d(\d(\d)?)?\<close>.\<close>

definition octet_re :: re where
  "octet_re = Seq (Atom Digit) (Opt (Seq (Atom Digit) (Opt (Atom Digit))))"

definition dot_re :: re where
  "dot_re = Atom (Lit (CHR ''.''))"

text \<open>\<open>(\b(?:\d{1,3}\.){3}\d{1,3}\b)\<close>.\<close>

definition cidr_re :: re where
  "cidr_re =
     cat [WordBoundary, octet_re, dot_re, octet_re, dot_re, octet_re, dot_re, octet_re,
          WordBoundary]"

subsection \<open>Lines and dotted quads of a body\<close>

text \<open>The character before the position reached after reading \<open>m\<close> from a
  position with the character \<open>p\<close> before it.\<close>

definition prevc :: "char option \<Rightarrow> string \<Rightarrow> char option" where
  "prevc p m = (if m = [] then p else Some (last m))"



text \<open>One to three digits; four such groups with dots between them.\<close>

definition octet_text :: "string \<Rightarrow> bool" where
  "octet_text a \<longleftrightarrow> a \<noteq> [] \<and> length a \<le> 3 \<and> list_all is_digit a"

definition dotted_quad :: "string \<Rightarrow> bool" where
  "dotted_quad s \<longleftrightarrow>
     (\<exists>a b c d. s = a @ ''.'' @ b @ ''.'' @ c @ ''.'' @ d
        \<and> octet_text a \<and> octet_text b \<and> octet_text c \<and> octet_text d)"

text \<open>A dotted quad \<open>s\<close> stands in \<open>body\<close> between \<open>pre\<close> and \<open>post\<close> with no word
  character next to it on either side.\<close>

definition quad_at :: "string \<Rightarrow> string \<Rightarrow> string \<Rightarrow> string \<Rightarrow> bool" where
  "quad_at body pre s post \<longleftrightarrow>
     body = pre @ s @ post \<and> dotted_quad s
     \<and> \<not> word_before (prevc None pre) \<and> \<not> word_after post"

section \<open>Package net: ParseIP, ParseCIDR and Contains\<close>

text \<open>
  The functions of package net that \<open>main.go\<close> calls, as they are in the Go releases
  that parse addresses through package netip: an address is a slice of 4 or 16 bytes, and
  the empty list stands for a nil slice.
\<close>

type_synonym byte = "8 word"

text \<open>\<open>dtoi\<close>: the decimal number at the start of a string, the number of characters
  read, and whether there was one below the bound \<open>0xFFFFFF\<close>.\<close>

fun dtoi_loop :: "nat \<Rightarrow> nat \<Rightarrow> string \<Rightarrow> nat \<times> nat \<times> bool" where
  "dtoi_loop n i [] = (if i = 0 then (0, 0, False) else (n, i, True))"
| "dtoi_loop n i (c # cs) =
     (if is_digit c then
        (let n' = n * 10 + (of_char c - 48) in
         if n' \<ge> 0xFFFFFF then (0xFFFFFF, i, False) else dtoi_loop n' (Suc i) cs)
      else if i = 0 then (0, 0, False) else (n, i, True))"

definition dtoi :: "string \<Rightarrow> nat \<times> nat \<times> bool" where
  "dtoi s = dtoi_loop 0 0 s"

text \<open>
  The loop of \<open>parseIPv4Fields\<close>: \<open>val\<close> and \<open>digLen\<close> of the octet being read, the
  octets stored so far (\<open>pos\<close> is their number), the character before the current one
  (none at index 0), and the characters left. An octet with a leading zero, an octet above
  255, an empty octet, a fifth octet and any other character are errors.
\<close>

fun parseIPv4Fields_loop ::
  "nat \<Rightarrow> nat \<Rightarrow> byte list \<Rightarrow> char option \<Rightarrow> string \<Rightarrow> byte list option" where
  "parseIPv4Fields_loop val digLen fields prev [] =
     (if length fields < 3 then None else Some (fields @ [of_nat val]))"
| "parseIPv4Fields_loop val digLen fields prev (c # cs) =
     (if is_digit c then
        (if digLen = 1 \<and> val = 0 then None
         else (let val' = val * 10 + (of_char c - 48) in
               if val' > 255 then None
               else parseIPv4Fields_loop val' (Suc digLen) fields (Some c) cs))
      else if c = CHR ''.'' then
        (if prev = None \<or> cs = [] \<or> prev = Some (CHR ''.'') then None
         else if length fields = 3 then None
         else parseIPv4Fields_loop 0 0 (fields @ [of_nat val]) (Some c) cs)
      else None)"

definition parseIPv4Fields :: "string \<Rightarrow> byte list option" where
  "parseIPv4Fields s = parseIPv4Fields_loop 0 0 [] None s"

definition hex_val :: "char \<Rightarrow> nat option" where
  "hex_val c =
     (let n = (of_char c :: nat) in
      if 48 \<le> n \<and> n \<le> 57 then Some (n - 48)
      else if 97 \<le> n \<and> n \<le> 102 then Some (n - 97 + 10)
      else if 65 \<le> n \<and> n \<le> 70 then Some (n - 65 + 10)
      else None)"

definition is_hex :: "char \<Rightarrow> bool" where
  "is_hex c \<longleftrightarrow> hex_val c \<noteq> None"

definition hex_acc :: "string \<Rightarrow> nat" where
  "hex_acc hs = foldl (\<lambda>acc c. acc * 16 + (case hex_val c of None \<Rightarrow> 0 | Some v \<Rightarrow> v)) 0 hs"

text \<open>
  The loop of \<open>parseIPv6\<close> over the colon-separated groups: the bytes stored so far
  (\<open>i\<close> is their number), the position of the ellipsis if one was read, and the text
  left. It returns the three when the loop is left, \<open>None\<close> on an error inside it.
\<close>

function parseIPv6_loop ::
  "byte list \<Rightarrow> nat option \<Rightarrow> string \<Rightarrow> (byte list \<times> nat option \<times> string) option" where
  "parseIPv6_loop ip ellipsis s =
     (if length ip \<ge> 16 then Some (ip, ellipsis, s)
      else
        let off = length (takeWhile is_hex s); acc = hex_acc (take off s); rest = drop off s in
        if off > 4 then None
        else if off = 0 then None
        else if rest \<noteq> [] \<and> hd rest = CHR ''.'' then
          (if ellipsis = None \<and> length ip \<noteq> 12 then None
           else if length ip + 4 > 16 then None
           else (case parseIPv4Fields s of
                   None \<Rightarrow> None
                 | Some f \<Rightarrow> Some (ip @ f, ellipsis, [])))
        else
          let ip' = ip @ [of_nat (acc div 256), of_nat acc] in
          if rest = [] then Some (ip', ellipsis, [])
          else if hd rest \<noteq> CHR '':'' then None
          else if length rest = 1 then None
          else if hd (tl rest) = CHR '':'' then
            (if ellipsis \<noteq> None then None
             else if tl (tl rest) = [] then Some (ip', Some (length ip'), [])
             else parseIPv6_loop ip' (Some (length ip')) (tl (tl rest)))
          else parseIPv6_loop ip' ellipsis (tl rest))"
  by pat_completeness auto
termination
  by (relation "measure (\<lambda>(ip, e, s). length s)") auto

declare parseIPv6_loop.simps [simp del]

text \<open>After the loop: the whole text must have been read, and the ellipsis stands for
  the missing bytes, at least two.\<close>

definition parseIPv6_finish :: "byte list \<times> nat option \<times> string \<Rightarrow> byte list option" where
  "parseIPv6_finish r =
     (case r of (ip, ellipsis, s) \<Rightarrow>
        if s \<noteq> [] then None
        else if length ip < 16 then
          (case ellipsis of
             None \<Rightarrow> None
           | Some e \<Rightarrow> Some (take e ip @ replicate (16 - length ip) 0 @ drop e ip))
        else if ellipsis \<noteq> None then None
        else Some ip)"

text \<open>\<open>parseIPv6\<close> as \<open>net.ParseIP\<close> and \<open>net.ParseCIDR\<close> use it: both refuse an
  address with a zone, so a \<open>%\<close> anywhere is an error.\<close>

definition parseIPv6 :: "string \<Rightarrow> byte list option" where
  "parseIPv6 s =
     (if CHR ''%'' \<in> set s then None
      else if length s \<ge> 2 \<and> take 2 s = ''::'' then
        (if drop 2 s = [] then Some (replicate 16 0)
         else (case parseIPv6_loop [] (Some 0) (drop 2 s) of
                 None \<Rightarrow> None
               | Some r \<Rightarrow> parseIPv6_finish r))
      else (case parseIPv6_loop [] None s of
              None \<Rightarrow> None
            | Some r \<Rightarrow> parseIPv6_finish r))"

datatype Addr = Addr4 "byte list" | Addr6 "byte list"

text \<open>\<open>netip.ParseAddr\<close>: the first of \<open>.\<close>, \<open>:\<close> and \<open>%\<close> in the text selects the
  parser.\<close>

definition ParseAddr :: "string \<Rightarrow> Addr option" where
  "ParseAddr s =
     (case dropWhile (\<lambda>c. c \<noteq> CHR ''.'' \<and> c \<noteq> CHR '':'' \<and> c \<noteq> CHR ''%'') s of
        [] \<Rightarrow> None
      | c # _ \<Rightarrow>
          if c = CHR ''.'' then map_option Addr4 (parseIPv4Fields s)
          else if c = CHR '':'' then map_option Addr6 (parseIPv6 s)
          else None)"

definition v4InV6Prefix :: "byte list" where
  "v4InV6Prefix = replicate 10 0 @ [0xff, 0xff]"

fun As16 :: "Addr \<Rightarrow> byte list" where
  "As16 (Addr4 b) = v4InV6Prefix @ b"
| "As16 (Addr6 b) = b"

fun BitLen :: "Addr \<Rightarrow> nat" where
  "BitLen (Addr4 b) = 32"
| "BitLen (Addr6 b) = 128"

text \<open>\<open>net.ParseIP\<close>: the 16-byte form of the address, \<open>None\<close> for nil.\<close>

definition ParseIP :: "string \<Rightarrow> byte list option" where
  "ParseIP s = map_option As16 (ParseAddr s)"

text \<open>\<open>net.IP.To4\<close>; the empty list stands for nil.\<close>

definition To4 :: "byte list \<Rightarrow> byte list" where
  "To4 ip =
     (if length ip = 4 then ip
      else if length ip = 16 \<and> take 12 ip = v4InV6Prefix then drop 12 ip
      else [])"

fun CIDRMask_loop :: "nat \<Rightarrow> nat \<Rightarrow> byte list" where
  "CIDRMask_loop 0 n = []"
| "CIDRMask_loop (Suc l) n =
     (if n \<ge> 8 then 0xff # CIDRMask_loop l (n - 8)
      else NOT (drop_bit n (0xff :: byte)) # CIDRMask_loop l 0)"

definition CIDRMask :: "nat \<Rightarrow> nat \<Rightarrow> byte list" where
  "CIDRMask ones bits =
     (if bits \<noteq> 32 \<and> bits \<noteq> 128 then []
      else if ones > bits then []
      else CIDRMask_loop (bits div 8) ones)"

text \<open>\<open>net.IP.Mask\<close>.\<close>

definition IP_Mask :: "byte list \<Rightarrow> byte list \<Rightarrow> byte list" where
  "IP_Mask ip msk =
     (let m1 = (if length msk = 16 \<and> length ip = 4 \<and> take 12 msk = replicate 12 0xff
                   then drop 12 msk else msk);
          ip1 = (if length m1 = 4 \<and> length ip = 16 \<and> take 12 ip = v4InV6Prefix
                 then drop 12 ip else ip)
      in if length ip1 \<noteq> length m1 then []
         else map (\<lambda>(a, b). a AND b) (zip ip1 m1))"

record IPNet =
  IP :: "byte list"
  Mask :: "byte list"

definition cut_slash :: "string \<Rightarrow> (string \<times> string) option" where
  "cut_slash s =
     (if CHR ''/'' \<in> set s
      then Some (takeWhile (\<lambda>c. c \<noteq> CHR ''/'') s, tl (dropWhile (\<lambda>c. c \<noteq> CHR ''/'') s))
      else None)"

text \<open>\<open>net.ParseCIDR\<close>, the network it returns; \<open>None\<close> when it returns an error.\<close>

definition ParseCIDR :: "string \<Rightarrow> IPNet option" where
  "ParseCIDR s =
     (case cut_slash s of
        None \<Rightarrow> None
      | Some (addr, msk) \<Rightarrow>
          (case ParseAddr addr of
             None \<Rightarrow> None
           | Some ipAddr \<Rightarrow>
               (case dtoi msk of
                  (n, i, ok) \<Rightarrow>
                    if \<not> ok \<or> i \<noteq> length msk \<or> n > BitLen ipAddr then None
                    else let m = CIDRMask n (BitLen ipAddr)
                         in Some \<lparr>IP = IP_Mask (As16 ipAddr) m, Mask = m\<rparr>)))"

definition networkNumberAndMask :: "IPNet \<Rightarrow> byte list \<times> byte list" where
  "networkNumberAndMask n =
     (let ip = (if To4 (IP n) = [] then IP n else To4 (IP n)) in
      if To4 (IP n) = [] \<and> length ip \<noteq> 16 then ([], [])
      else if length (Mask n) = 4 then
        (if length ip \<noteq> 4 then ([], []) else (ip, Mask n))
      else if length (Mask n) = 16 then
        (if length ip = 4 then (ip, drop 12 (Mask n)) else (ip, Mask n))
      else ([], []))"

text \<open>\<open>(*net.IPNet).Contains\<close>.\<close>

definition IPNet_Contains :: "IPNet \<Rightarrow> byte list \<Rightarrow> bool" where
  "IPNet_Contains n ip =
     (case networkNumberAndMask n of
        (nn, m) \<Rightarrow>
          let x = (if To4 ip \<noteq> [] then To4 ip else ip) in
          if length x \<noteq> length nn then False
          else list_all (\<lambda>(a, b). a = b)
                 (zip (map (\<lambda>(a, b). a AND b) (zip nn m)) (map (\<lambda>(a, b). a AND b) (zip x m))))"

section \<open>The rule set: parseKeywords, checkExceptions, checkKeywords\<close>

text \<open>
  Modelled from the spec: the declaration of the struct \<open>keyword\<close> is not in
  \<open>main.go\<close>; a rule definition has the three fields \<open>parseKeywords\<close> reads, the
  keyword, the type and the exception substrings.
\<close>

record keyword =
  Keyword :: string
  Type :: string
  Exceptions :: "string list"

text \<open>The struct \<open>keywordType\<close>; \<open>None\<close> is the nil pointer.\<close>

record keywordType =
  regexp :: "re option"
  keywordType :: string
  ipNet :: "IPNet option"
  exceptions :: "string list"

text \<open>
  A Go map is an association list with one entry for each key: \<open>m[k] = v\<close> is
  \<open>AList.update k v m\<close>, a lookup is \<open>map_of m k\<close>, \<open>delete(m, k)\<close> is
  \<open>AList.delete k m\<close>, and \<open>range\<close> visits the entries in the order of the list,
  which stands for the order the runtime happens to choose.
\<close>

type_synonym ruleset = "(string \<times> keywordType) list"

text \<open>
  UTF-8 as \<open>utf8.DecodeRuneInString\<close> accepts it: the shortest encodings of the code
  points up to U+10FFFF without the surrogates. \<open>is_cont\<close> is a continuation byte.
\<close>

definition byte_in :: "nat \<Rightarrow> nat \<Rightarrow> char \<Rightarrow> bool" where
  "byte_in lo hi c \<longleftrightarrow> lo \<le> (of_char c :: nat) \<and> (of_char c :: nat) \<le> hi"

definition is_cont :: "char \<Rightarrow> bool" where
  "is_cont c \<longleftrightarrow> byte_in 0x80 0xBF c"

fun valid_utf8 :: "string \<Rightarrow> bool" where
  "valid_utf8 [] = True"
| "valid_utf8 [c] = byte_in 0 0x7F c"
| "valid_utf8 [c, c1] =
     (if byte_in 0 0x7F c then valid_utf8 [c1]
      else byte_in 0xC2 0xDF c \<and> is_cont c1)"
| "valid_utf8 [c, c1, c2] =
     (if byte_in 0 0x7F c then valid_utf8 [c1, c2]
      else if byte_in 0xC2 0xDF c then is_cont c1 \<and> valid_utf8 [c2]
      else if byte_in 0xE0 0xE0 c then byte_in 0xA0 0xBF c1 \<and> is_cont c2
      else if byte_in 0xED 0xED c then byte_in 0x80 0x9F c1 \<and> is_cont c2
      else byte_in 0xE1 0xEF c \<and> is_cont c1 \<and> is_cont c2)"
| "valid_utf8 (c # c1 # c2 # c3 # cs) =
     (if byte_in 0 0x7F c then valid_utf8 (c1 # c2 # c3 # cs)
      else if byte_in 0xC2 0xDF c then is_cont c1 \<and> valid_utf8 (c2 # c3 # cs)
      else if byte_in 0xE0 0xE0 c then
        byte_in 0xA0 0xBF c1 \<and> is_cont c2 \<and> valid_utf8 (c3 # cs)
      else if byte_in 0xED 0xED c then
        byte_in 0x80 0x9F c1 \<and> is_cont c2 \<and> valid_utf8 (c3 # cs)
      else if byte_in 0xE1 0xEF c then is_cont c1 \<and> is_cont c2 \<and> valid_utf8 (c3 # cs)
      else if byte_in 0xF0 0xF0 c then
        byte_in 0x90 0xBF c1 \<and> is_cont c2 \<and> is_cont c3 \<and> valid_utf8 cs
      else if byte_in 0xF4 0xF4 c then
        byte_in 0x80 0x8F c1 \<and> is_cont c2 \<and> is_cont c3 \<and> valid_utf8 cs
      else byte_in 0xF1 0xF3 c \<and> is_cont c1 \<and> is_cont c2 \<and> is_cont c3 \<and> valid_utf8 cs)"

text \<open>The number of runes of valid UTF-8.\<close>

definition rune_count :: "string \<Rightarrow> nat" where
  "rune_count s = length (filter (\<lambda>c. \<not> is_cont c) s)"

text \<open>
  \<open>regexp.MustCompile\<close> panics when the pattern does not parse. The pattern of a rule
  of the type \<open>cidr\<close> is a constant that parses. The pattern of any other rule holds
  the quoted keyword: it does not parse when the keyword is not valid UTF-8, and when it
  has more runes than the parser of package regexp allows in one expression
  (\<open>maxRunes\<close>, 128 MiB of runes of four bytes).
\<close>

definition maxRunes :: nat where
  "maxRunes = 33554432"

definition MustCompile_panics :: "string \<Rightarrow> bool" where
  "MustCompile_panics kw \<longleftrightarrow> \<not> valid_utf8 kw \<or> rune_count kw > maxRunes"

text \<open>
  \<open>parseKeywords\<close> ends in one of three ways: it returns the rule set, it returns an
  error, or \<open>regexp.MustCompile\<close> panics inside it.
\<close>

datatype error = CidrParseError string

datatype panic = NilPointerDereference | MustCompilePanic string

datatype failure = Returned error | Panicked panic

fun parseKeywords_loop :: "keyword list \<Rightarrow> ruleset \<Rightarrow> failure + ruleset" where
  "parseKeywords_loop [] keywords = Inr keywords"
| "parseKeywords_loop (k # ks) keywords =
     (if Type k = ''cidr'' then
        (case ParseCIDR (Keyword k) of
           None \<Rightarrow> Inl (Returned (CidrParseError (Keyword k)))
         | Some n \<Rightarrow>
             parseKeywords_loop ks
               (AList.update (Keyword k)
                  \<lparr>regexp = Some cidr_re, keywordType = ''ip'', ipNet = Some n,
                   exceptions = Exceptions k\<rparr> keywords))
      else if MustCompile_panics (Keyword k) then
        Inl (Panicked (MustCompilePanic (Keyword k)))
      else
        parseKeywords_loop ks
          (AList.update (Keyword k)
             \<lparr>regexp = Some (literal_re (Keyword k)), keywordType = ''string'', ipNet = None,
              exceptions = Exceptions k\<rparr> keywords))"

definition parseKeywords :: "keyword list \<Rightarrow> failure + ruleset" where
  "parseKeywords k = parseKeywords_loop k []"

fun checkExceptions :: "string \<Rightarrow> string list \<Rightarrow> bool" where
  "checkExceptions s [] = False"
| "checkExceptions s (x # xs) =
     (if strings_Contains s x then True else checkExceptions s xs)"

text \<open>
  The body of the loop of \<open>checkKeywords\<close> for one entry of the rule set, on the
  current \<open>status\<close> and \<open>found\<close>. Calling \<open>Contains\<close> on a nil \<open>ipNet\<close> is a
  run-time panic.
\<close>

type_synonym matches = "bool \<times> (string \<rightharpoonup> string)"

definition checkKeywords_body :: "string \<Rightarrow> string \<Rightarrow> keywordType \<Rightarrow> matches \<Rightarrow> panic + matches" where
  "checkKeywords_body body k v acc =
     (case acc of (status, found) \<Rightarrow>
        (case regexp v of
           None \<Rightarrow> Inr (status, found)
         | Some r \<Rightarrow>
             (case FindStringSubmatch r body of
                None \<Rightarrow> Inr (status, found)
              | Some s1 \<Rightarrow>
                  (let match = TrimSpace s1 in
                   if keywordType v = ''ip'' then
                     (case ParseIP match of
                        None \<Rightarrow> Inr (status, found)
                      | Some ip \<Rightarrow>
                          (case ipNet v of
                             None \<Rightarrow> Inl NilPointerDereference
                           | Some n \<Rightarrow>
                               if IPNet_Contains n ip then Inr (True, found(k \<mapsto> match))
                               else Inr (status, found)))
                   else if \<not> checkExceptions match (exceptions v)
                     then Inr (True, found(k \<mapsto> match))
                     else Inr (status, found)))))"

fun checkKeywords_loop :: "string \<Rightarrow> ruleset \<Rightarrow> matches \<Rightarrow> panic + matches" where
  "checkKeywords_loop body [] acc = Inr acc"
| "checkKeywords_loop body ((k, v) # kvs) acc =
     (case checkKeywords_body body k v acc of
        Inl e \<Rightarrow> Inl e
      | Inr acc' \<Rightarrow> checkKeywords_loop body kvs acc')"

definition checkKeywords :: "string \<Rightarrow> ruleset \<Rightarrow> panic + matches" where
  "checkKeywords body keywords = checkKeywords_loop body keywords (False, Map.empty)"

text \<open>The match that one rule records for a body when it is evaluated alone:
  \<open>checkKeywords\<close> on the rule set that holds this rule only.\<close>

definition rule_alone :: "string \<Rightarrow> string \<Rightarrow> keywordType \<Rightarrow> string option" where
  "rule_alone body k v =
     (case checkKeywords body [(k, v)] of
        Inl e \<Rightarrow> None
      | Inr (status, found) \<Rightarrow> found k)"

text \<open>A rule of the type \<open>ip\<close> as \<open>parseKeywords\<close> builds it has a network.\<close>

definition wf_rule :: "keywordType \<Rightarrow> bool" where
  "wf_rule v \<longleftrightarrow> keywordType v \<noteq> ''ip'' \<or> ipNet v \<noteq> None"

text \<open>Two rule definitions that differ at most in the exceptions of a definition of
  the type \<open>cidr\<close>; the same for two compiled rules.\<close>

definition same_but_cidr_exceptions :: "keyword \<Rightarrow> keyword \<Rightarrow> bool" where
  "same_but_cidr_exceptions d d' \<longleftrightarrow>
     Keyword d = Keyword d' \<and> Type d = Type d'
     \<and> (Type d = ''cidr'' \<or> Exceptions d = Exceptions d')"

definition same_but_ip_exceptions :: "string \<times> keywordType \<Rightarrow> string \<times> keywordType \<Rightarrow> bool" where
  "same_but_ip_exceptions e e' \<longleftrightarrow>
     fst e = fst e' \<and> regexp (snd e) = regexp (snd e')
     \<and> keywordType (snd e) = keywordType (snd e') \<and> ipNet (snd e) = ipNet (snd e')
     \<and> (keywordType (snd e) = ''ip'' \<or> exceptions (snd e) = exceptions (snd e'))"

section \<open>The start of main\<close>

text \<open>
  Modelled from the spec: the declaration of the struct \<open>configuration\<close> is not in
  \<open>main.go\<close>; \<open>main\<close> reads the rule definitions, the timeout and the flag
  \<open>Mailonerror\<close> from it.
\<close>

record configuration =
  Keywords :: "keyword list"
  Timeout :: string
  Mailonerror :: bool

text \<open>
  \<open>main\<close> up to the loop: \<open>log.Fatalf\<close> ends the process when the configuration
  cannot be read, when \<open>parseKeywords\<close> returns an error and when the timeout is not a
  duration; a panic inside \<open>parseKeywords\<close> ends it as well. The result of
  \<open>getConfig\<close> and the function \<open>time.ParseDuration\<close> are parameters.
\<close>

datatype fatal = ConfigFileFatal string | KeywordsFatal error | TimeoutFatal string
  | StartPanic panic

definition startup ::
  "string + configuration \<Rightarrow> (string \<Rightarrow> string + int) \<Rightarrow> fatal + (ruleset \<times> int)" where
  "startup getConfig ParseDuration =
     (case getConfig of
        Inl err \<Rightarrow> Inl (ConfigFileFatal err)
      | Inr config \<Rightarrow>
          (case parseKeywords (Keywords config) of
             Inl (Returned err) \<Rightarrow> Inl (KeywordsFatal err)
           | Inl (Panicked p) \<Rightarrow> Inl (StartPanic p)
           | Inr kws \<Rightarrow>
               (case ParseDuration (Timeout config) of
                  Inl err \<Rightarrow> Inl (TimeoutFatal err)
                | Inr timeout \<Rightarrow> Inr (kws, timeout))))"

section \<open>The polling loop of main\<close>

text \<open>
  Modelled from the spec: the declaration of the struct \<open>paste\<close> is not in
  \<open>main.go\<close>; the loop reads its field \<open>Key\<close> only.
\<close>

record paste =
  Key :: string

text \<open>
  \<open>alredyChecked\<close> is a Go map from paste keys to the time they were first seen; a
  \<open>time.Time\<close> is a number of nanoseconds, a \<open>time.Duration\<close> as well.
\<close>

type_synonym seen = "(string \<times> int) list"

definition Second :: int where
  "Second = 1000000000"

definition Minute :: int where
  "Minute = 60 * Second"

text \<open>
  What the loop does to the outside is listed as events: a key stored in
  \<open>alredyChecked\<close>, a call of \<open>p.fetch\<close>, a value sent on \<open>chanError\<close> and a paste
  sent on \<open>chanOutput\<close>. An error value is its message.
\<close>

datatype event = Marked string | FetchCall string | ErrorSent string | OutputSent paste

text \<open>
  The collaborators of the loop are parameters: the clock, \<open>time.Sleep\<close>,
  \<open>fetchPasteList\<close> and \<open>p.fetch\<close> (both defined outside \<open>main.go\<close>), and the
  hand-over of a value to the goroutine that reads a channel. Each acts on a state of
  the outside world of type \<open>'w\<close>.
\<close>

record 'w env =
  Now :: "'w \<Rightarrow> int"
  Sleep :: "int \<Rightarrow> 'w \<Rightarrow> 'w"
  fetchPasteList :: "'w \<Rightarrow> (string + paste list) \<times> 'w"
  fetch :: "paste \<Rightarrow> ruleset \<Rightarrow> 'w \<Rightarrow> (string + paste option) \<times> 'w"
  chanSend :: "'w \<Rightarrow> 'w"

text \<open>The test \<open>_, ok := alredyChecked[p.Key]\<close>.\<close>

definition has :: "seen \<Rightarrow> string \<Rightarrow> bool" where
  "has m k \<longleftrightarrow> map_of m k \<noteq> None"

text \<open>The assignment \<open>alredyChecked[p.Key] = time.Now()\<close>.\<close>

definition mark :: "string \<Rightarrow> int \<Rightarrow> seen \<Rightarrow> seen" where
  "mark k now m = AList.update k now m"

text \<open>What one pass of the loop over the pastes does to \<open>alredyChecked\<close> for a paste
  with the key \<open>k\<close> at the time \<open>now\<close>: the key is stored unless it is present.\<close>

definition see :: "string \<Rightarrow> int \<Rightarrow> seen \<Rightarrow> seen" where
  "see k now m = (if has m k then m else mark k now m)"

text \<open>The loop over the listed pastes: a key that is present is skipped; any other key
  is stored first, then the paste is fetched, the result sent on, and the loop sleeps a
  second.\<close>

fun pastes_loop :: "'w env \<Rightarrow> ruleset \<Rightarrow> paste list \<Rightarrow> seen \<times> 'w \<Rightarrow> seen \<times> event list \<times> 'w" where
  "pastes_loop env kws [] (m, w) = (m, [], w)"
| "pastes_loop env kws (p # ps) (m, w) =
     (if has m (Key p) then pastes_loop env kws ps (m, w)
      else
        (let m1 = mark (Key p) (Now env w) m;
             (r, w1) = fetch env p kws w;
             (evs, w2) =
               (case r of
                  Inl err \<Rightarrow> ([ErrorSent (''fetch: '' @ err)], chanSend env w1)
                | Inr None \<Rightarrow> ([], w1)
                | Inr (Some p2) \<Rightarrow> ([OutputSent p2], chanSend env w1));
             w3 = Sleep env (1 * Second) w2;
             (m', evs', w') = pastes_loop env kws ps (m1, w3)
         in (m', [Marked (Key p), FetchCall (Key p)] @ evs @ evs', w')))"

text \<open>The clean-up loop: \<open>range\<close> over the entries, deleting each one whose time is
  before the threshold.\<close>

fun evict_loop :: "(string \<times> int) list \<Rightarrow> int \<Rightarrow> seen \<Rightarrow> seen" where
  "evict_loop [] threshold m = m"
| "evict_loop ((k, v) # es) threshold m =
     evict_loop es threshold (if v < threshold then AList.delete k m else m)"

definition evict :: "seen \<Rightarrow> int \<Rightarrow> seen" where
  "evict m threshold = evict_loop m threshold m"

record controller =
  alredyChecked :: seen
  lastCheck :: int

text \<open>The world after the wait at the head of the loop body.\<close>

definition wait :: "'w env \<Rightarrow> controller \<Rightarrow> 'w \<Rightarrow> 'w" where
  "wait env st w =
     (let sleepTime = (lastCheck st + 1 * Minute) - Now env w
      in if sleepTime > 0 then Sleep env sleepTime w else w)"

text \<open>One pass through the body of the endless loop of \<open>main\<close>.\<close>

definition main_cycle :: "'w env \<Rightarrow> ruleset \<Rightarrow> controller \<times> 'w \<Rightarrow> controller \<times> event list \<times> 'w" where
  "main_cycle env kws sw =
     (case sw of (st, w) \<Rightarrow>
        (let w1 = wait env st w;
             st1 = st\<lparr>lastCheck := Now env w1\<rparr>;
             (r, w2) = fetchPasteList env w1
         in case r of
              Inl err \<Rightarrow> (st1, [ErrorSent (''fetchPasteList: '' @ err)], chanSend env w2)
            | Inr pastes \<Rightarrow>
                (let (m, evs, w3) = pastes_loop env kws pastes (alredyChecked st1, w2);
                     threshold = Now env w3 + (- 10) * Minute
                 in (st1\<lparr>alredyChecked := evict m threshold\<rparr>, evs, w3))))"

text \<open>The first \<open>n\<close> passes of the loop, which never ends by itself.\<close>

fun main_loop :: "nat \<Rightarrow> 'w env \<Rightarrow> ruleset \<Rightarrow> controller \<times> 'w \<Rightarrow> controller \<times> event list \<times> 'w" where
  "main_loop 0 env kws (st, w) = (st, [], w)"
| "main_loop (Suc n) env kws (st, w) =
     (case main_cycle env kws (st, w) of
        (st1, evs, w1) \<Rightarrow>
          (case main_loop n env kws (st1, w1) of
             (st2, evs', w2) \<Rightarrow> (st2, evs @ evs', w2)))"

text \<open>The keys fetched and the keys stored, in the order of the events.\<close>

fun fetched :: "event list \<Rightarrow> string list" where
  "fetched [] = []"
| "fetched (FetchCall k # evs) = k # fetched evs"
| "fetched (e # evs) = fetched evs"

fun errors_sent :: "event list \<Rightarrow> string list" where
  "errors_sent [] = []"
| "errors_sent (ErrorSent e # evs) = e # errors_sent evs"
| "errors_sent (e # evs) = errors_sent evs"

text \<open>Every call of \<open>p.fetch\<close> in a list of events comes after the key was stored:
  \<open>marked\<close> are the keys stored so far.\<close>

fun fetch_after_mark :: "string list \<Rightarrow> event list \<Rightarrow> bool" where
  "fetch_after_mark marked [] = True"
| "fetch_after_mark marked (Marked k # evs) = fetch_after_mark (k # marked) evs"
| "fetch_after_mark marked (FetchCall k # evs) = (k \<in> set marked \<and> fetch_after_mark marked evs)"
| "fetch_after_mark marked (e # evs) = fetch_after_mark marked evs"

section \<open>The two scenarios of the rule set\<close>

lemma compiles_password: "\<not> MustCompile_panics ''password''"
  by (simp add: MustCompile_panics_def rune_count_def maxRunes_def byte_in_def is_cont_def)

lemma compiles_contact: "\<not> MustCompile_panics ''contact''"
  by (simp add: MustCompile_panics_def rune_count_def maxRunes_def byte_in_def is_cont_def)

lemma dtoi_8: "dtoi ''8'' = (8, 1, True)"
  by (simp add: dtoi_def is_digit_def)

lemma ParseAddr_10_0_0_0: "ParseAddr ''10.0.0.0'' = Some (Addr4 [10, 0, 0, 0])"
  by code_simp

lemma CIDRMask_8_32: "CIDRMask 8 32 = [255, 0, 0, 0]"
  by code_simp

lemma IP_Mask_10_0_0_0: "IP_Mask (v4InV6Prefix @ [10, 0, 0, 0]) [255, 0, 0, 0] = [10, 0, 0, 0]"
  by code_simp

lemma cut_slash_10_0_0_0: "cut_slash ''10.0.0.0/8'' = Some (''10.0.0.0'', ''8'')"
  by (simp add: cut_slash_def)

lemma ParseCIDR_10_0_0_0:
  "ParseCIDR ''10.0.0.0/8'' = Some \<lparr>IP = [10, 0, 0, 0], Mask = [255, 0, 0, 0]\<rparr>"
  by (simp add: ParseCIDR_def cut_slash_10_0_0_0 ParseAddr_10_0_0_0 dtoi_8 CIDRMask_8_32
      IP_Mask_10_0_0_0)

lemma parseKeywords_net10:
  "parseKeywords [\<lparr>Keyword = ''10.0.0.0/8'', Type = ''cidr'', Exceptions = []\<rparr>] =
   Inr [(''10.0.0.0/8'',
         \<lparr>regexp = Some cidr_re, keywordType = ''ip'',
          ipNet = Some \<lparr>IP = [10, 0, 0, 0], Mask = [255, 0, 0, 0]\<rparr>, exceptions = []\<rparr>)]"
  by (simp add: parseKeywords_def ParseCIDR_10_0_0_0)

lemma find_10_5_5_5:
  "FindStringSubmatch cidr_re ''contact ip 10.5.5.5 for access'' = Some ''10.5.5.5''"
  by code_simp

lemma TrimSpace_10_5_5_5: "TrimSpace ''10.5.5.5'' = ''10.5.5.5''"
  by code_simp

lemma ParseIP_10_5_5_5:
  "ParseIP ''10.5.5.5'' = Some [0, 0, 0, 0, 0, 0, 0, 0, 0, 0, 255, 255, 10, 5, 5, 5]"
  by code_simp

lemma Contains_10_5_5_5:
  "IPNet_Contains \<lparr>IP = [10, 0, 0, 0], Mask = [255, 0, 0, 0]\<rparr>
     [0, 0, 0, 0, 0, 0, 0, 0, 0, 0, 255, 255, 10, 5, 5, 5]"
  by code_simp

text \<open>
  C5. The rule \<open>{keyword: "10.0.0.0/8", type: "cidr"}\<close> compiles, and on the body
  \<open>contact ip 10.5.5.5 for access\<close> the rule set gives the match result
  \<open>{"10.0.0.0/8": "10.5.5.5"}\<close> with the status true.
\<close>

theorem scenario_cidr_match:
  "\<exists>ks. parseKeywords [\<lparr>Keyword = ''10.0.0.0/8'', Type = ''cidr'', Exceptions = []\<rparr>] = Inr ks
     \<and> checkKeywords ''contact ip 10.5.5.5 for access'' ks
         = Inr (True, [''10.0.0.0/8'' \<mapsto> ''10.5.5.5''])"
  by (simp add: parseKeywords_net10 checkKeywords_def checkKeywords_body_def find_10_5_5_5
      TrimSpace_10_5_5_5 ParseIP_10_5_5_5 Contains_10_5_5_5)

lemma parseKeywords_password:
  "parseKeywords [\<lparr>Keyword = ''password'', Type = ''literal'', Exceptions = [''example.com'']\<rparr>] =
   Inr [(''password'',
         \<lparr>regexp = Some (literal_re ''password''), keywordType = ''string'', ipNet = None,
          exceptions = [''example.com'']\<rparr>)]"
  by (simp add: parseKeywords_def compiles_password)

lemma find_password_docs:
  "FindStringSubmatch (literal_re ''password'') ''my password is at example.com/docs''
   = Some ''my password is at example.com/docs''"
  by code_simp

lemma find_password_hunter2:
  "FindStringSubmatch (literal_re ''password'') ''my password is hunter2''
   = Some ''my password is hunter2''"
  by code_simp

lemma TrimSpace_docs:
  "TrimSpace ''my password is at example.com/docs'' = ''my password is at example.com/docs''"
  by code_simp

lemma TrimSpace_hunter2: "TrimSpace ''my password is hunter2'' = ''my password is hunter2''"
  by code_simp

lemma checkExceptions_docs:
  "checkExceptions ''my password is at example.com/docs'' [''example.com'']"
  by code_simp

lemma checkExceptions_hunter2:
  "\<not> checkExceptions ''my password is hunter2'' [''example.com'']"
  by code_simp

text \<open>
  C6. The rule \<open>{keyword: "password", type: "literal", exceptions: ["example.com"]}\<close>
  compiles; on the body \<open>my password is at example.com/docs\<close> the rule set gives no
  match, the exception suppresses it, and on the body \<open>my password is hunter2\<close> it
  gives the match result \<open>{"password": "my password is hunter2"}\<close>.
\<close>

theorem scenario_literal_exception:
  "\<exists>ks. parseKeywords
          [\<lparr>Keyword = ''password'', Type = ''literal'', Exceptions = [''example.com'']\<rparr>] = Inr ks
     \<and> checkKeywords ''my password is at example.com/docs'' ks = Inr (False, Map.empty)
     \<and> checkKeywords ''my password is hunter2'' ks
         = Inr (True, [''password'' \<mapsto> ''my password is hunter2''])"
  by (simp add: parseKeywords_password checkKeywords_def checkKeywords_body_def
      find_password_docs find_password_hunter2 TrimSpace_docs TrimSpace_hunter2
      checkExceptions_docs checkExceptions_hunter2)

section \<open>The seen-set and the polling loop\<close>

lemma has_mark: "has (mark k t m) k' \<longleftrightarrow> k' = k \<or> has m k'"
  by (simp add: has_def mark_def update_conv')

lemma fetched_append: "fetched (xs @ ys) = fetched xs @ fetched ys"
  by (induction xs rule: fetched.induct) simp_all

lemma pastes_loop_props:
  "pastes_loop env kws ps (m, w) = (m', evs, w') \<Longrightarrow>
     distinct (fetched evs) \<and> set (fetched evs) = Key ` set ps - {k. has m k}
     \<and> (\<forall>k. has m' k \<longleftrightarrow> has m k \<or> k \<in> Key ` set ps)
     \<and> fetch_after_mark M evs"
proof (induction ps arbitrary: m w m' evs w' M)
  case Nil
  then show ?case by simp
next
  case (Cons p ps)
  show ?case
  proof (cases "has m (Key p)")
    case True
    with Cons.prems have "pastes_loop env kws ps (m, w) = (m', evs, w')" by simp
    from Cons.IH [OF this, of M] True show ?thesis by auto
  next
    case False
    obtain r w1 where f: "fetch env p kws w = (r, w1)" by (cases "fetch env p kws w")
    obtain evs0 w2 where r: "(case r of
                  Inl err \<Rightarrow> ([ErrorSent (''fetch: '' @ err)], chanSend env w1)
                | Inr None \<Rightarrow> ([], w1)
                | Inr (Some p2) \<Rightarrow> ([OutputSent p2], chanSend env w1)) = (evs0, w2)"
      by (cases "(case r of
                  Inl err \<Rightarrow> ([ErrorSent (''fetch: '' @ err)], chanSend env w1)
                | Inr None \<Rightarrow> ([], w1)
                | Inr (Some p2) \<Rightarrow> ([OutputSent p2], chanSend env w1))")
    have e0: "fetched evs0 = []" "\<And>N ys. fetch_after_mark N (evs0 @ ys) = fetch_after_mark N ys"
      using r by (auto split: sum.splits option.splits)
    obtain m2 evs2 w3 where rec: "pastes_loop env kws ps (mark (Key p) (Now env w) m, Sleep env (1 * Second) w2) = (m2, evs2, w3)"
      by (cases "pastes_loop env kws ps (mark (Key p) (Now env w) m, Sleep env (1 * Second) w2)")
    from Cons.prems False f r rec have res: "m' = m2" "evs = [Marked (Key p), FetchCall (Key p)] @ evs0 @ evs2" "w' = w3"
      by simp_all
    note ih = Cons.IH [OF rec, of "Key p # M"]
    show ?thesis
      using ih False by (auto simp: res fetched_append e0 has_mark)
  qed
qed

lemma pastes_loop_single:
  "fst (pastes_loop env kws [p] (m, w)) = see (Key p) (Now env w) m"
  by (simp add: see_def split: prod.splits)



lemma distinct_mark: "distinct (map fst m) \<Longrightarrow> distinct (map fst (mark k t m))"
  by (simp add: mark_def distinct_update)

lemma distinct_evict_loop:
  "distinct (map fst m) \<Longrightarrow> distinct (map fst (evict_loop es threshold m))"
  by (induction es arbitrary: m) (auto simp: distinct_delete)

lemma distinct_evict: "distinct (map fst m) \<Longrightarrow> distinct (map fst (evict m threshold))"
  by (simp add: evict_def distinct_evict_loop)



text \<open>
  C8. In one pass of the loop of \<open>main\<close> no key is fetched twice, whatever the list
  holds: the keys fetched are distinct, each call of \<open>p.fetch\<close> comes after the key was
  stored in \<open>alredyChecked\<close>, and when the list call succeeds the keys fetched are
  those of the listed pastes that were absent from \<open>alredyChecked\<close> at the start.
\<close>

theorem duplicate_key_fetched_once:
  "case main_cycle env kws (st, w) of
     (st', evs, w') \<Rightarrow>
       distinct (fetched evs) \<and> fetch_after_mark [] evs
       \<and> (\<forall>pastes. fst (fetchPasteList env (wait env st w)) = Inr pastes \<longrightarrow>
            set (fetched evs) = Key ` set pastes - {k. has (alredyChecked st) k})"
proof (cases "fetchPasteList env (wait env st w)")
  case (Pair r w2)
  show ?thesis
  proof (cases r)
    case (Inl err)
    with Pair show ?thesis by (simp add: main_cycle_def)
  next
    case (Inr pastes)
    obtain m evs w3 where l: "pastes_loop env kws pastes (alredyChecked st, w2) = (m, evs, w3)"
      by (cases "pastes_loop env kws pastes (alredyChecked st, w2)")
    from pastes_loop_props [OF l, of "[]"] Pair Inr l show ?thesis
      by (simp add: main_cycle_def)
  qed
qed

theorem duplicate_key_fetched_once_witness:
  "fst (fetchPasteList
         \<lparr>Now = (\<lambda>w. w), Sleep = (\<lambda>d w. w + d),
          fetchPasteList = (\<lambda>w. (Inr [\<lparr>Key = ''k1''\<rparr>, \<lparr>Key = ''k1''\<rparr>], w)),
          fetch = (\<lambda>p kws w. (Inr None, w)), chanSend = (\<lambda>w. w)\<rparr>
         (wait \<lparr>Now = (\<lambda>w. w), Sleep = (\<lambda>d w. w + d),
          fetchPasteList = (\<lambda>w. (Inr [\<lparr>Key = ''k1''\<rparr>, \<lparr>Key = ''k1''\<rparr>], w)),
          fetch = (\<lambda>p kws w. (Inr None, w)), chanSend = (\<lambda>w. w)\<rparr> \<lparr>alredyChecked = [], lastCheck = 0\<rparr> 0))
     = Inr [\<lparr>Key = ''k1''\<rparr>, \<lparr>Key = ''k1''\<rparr>]
   \<and> fetched (fst (snd (main_cycle
         \<lparr>Now = (\<lambda>w. w), Sleep = (\<lambda>d w. w + d),
          fetchPasteList = (\<lambda>w. (Inr [\<lparr>Key = ''k1''\<rparr>, \<lparr>Key = ''k1''\<rparr>], w)),
          fetch = (\<lambda>p kws w. (Inr None, w)), chanSend = (\<lambda>w. w)\<rparr> []
         (\<lparr>alredyChecked = [], lastCheck = 0\<rparr>, 0)))) = [''k1'']"
  using duplicate_key_fetched_once [where env =
         "\<lparr>Now = (\<lambda>w. w), Sleep = (\<lambda>d w. w + d),
          fetchPasteList = (\<lambda>w. (Inr [\<lparr>Key = ''k1''\<rparr>, \<lparr>Key = ''k1''\<rparr>], w)),
          fetch = (\<lambda>p kws w. (Inr None, w)), chanSend = (\<lambda>w. w)\<rparr>" and kws = "[]"
         and st = "\<lparr>alredyChecked = [], lastCheck = 0\<rparr>" and w = 0]
  by (simp add: main_cycle_def wait_def has_def mark_def Let_def Minute_def Second_def)

text \<open>
  C9. When the list call of a pass fails, the pass fetches no paste, sends the one error
  \<open>fetchPasteList: ...\<close> on the error channel and nothing else, and leaves
  \<open>alredyChecked\<close> as it was: nothing is stored and the clean-up is not run.
\<close>

theorem list_failure_cycle:
  assumes "fst (fetchPasteList env (wait env st w)) = Inl err"
  shows "case main_cycle env kws (st, w) of
           (st', evs, w') \<Rightarrow>
             alredyChecked st' = alredyChecked st
             \<and> fetched evs = []
             \<and> errors_sent evs = [''fetchPasteList: '' @ err]
             \<and> evs = [ErrorSent (''fetchPasteList: '' @ err)]"
  using assms by (cases "fetchPasteList env (wait env st w)") (simp add: main_cycle_def)

theorem list_failure_cycle_witness:
  "fst (fetchPasteList
         \<lparr>Now = (\<lambda>w. w), Sleep = (\<lambda>d w. w + d),
          fetchPasteList = (\<lambda>w. (Inl ''timeout'', w)),
          fetch = (\<lambda>p kws w. (Inr None, w)), chanSend = (\<lambda>w. w)\<rparr>
         (wait \<lparr>Now = (\<lambda>w. w), Sleep = (\<lambda>d w. w + d),
          fetchPasteList = (\<lambda>w. (Inl ''timeout'', w)),
          fetch = (\<lambda>p kws w. (Inr None, w)), chanSend = (\<lambda>w. w)\<rparr>
          \<lparr>alredyChecked = [(''old'', 0)], lastCheck = 0\<rparr> (900 * Second)))
     = Inl ''timeout''
   \<and> (case main_cycle
         \<lparr>Now = (\<lambda>w. w), Sleep = (\<lambda>d w. w + d),
          fetchPasteList = (\<lambda>w. (Inl ''timeout'', w)),
          fetch = (\<lambda>p kws w. (Inr None, w)), chanSend = (\<lambda>w. w)\<rparr> []
         (\<lparr>alredyChecked = [(''old'', 0)], lastCheck = 0\<rparr>, 900 * Second) of
        (st', evs, w') \<Rightarrow>
          alredyChecked st' = [(''old'', 0)] \<and> fetched evs = []
          \<and> errors_sent evs = [''fetchPasteList: timeout''])"
  using list_failure_cycle [where env =
         "\<lparr>Now = (\<lambda>w. w), Sleep = (\<lambda>d w. w + d),
          fetchPasteList = (\<lambda>w. (Inl ''timeout'', w)),
          fetch = (\<lambda>p kws w. (Inr None, w)), chanSend = (\<lambda>w. w)\<rparr>"
         and st = "\<lparr>alredyChecked = [(''old'', 0)], lastCheck = 0\<rparr>" and w = "900 * Second"
         and err = "''timeout''" and kws = "[]"]
  by (simp add: main_cycle_def wait_def Let_def Minute_def Second_def)

section \<open>Compiling the rule set\<close>

lemma parseKeywords_loop_bad:
  "Type d = ''cidr'' \<Longrightarrow> ParseCIDR (Keyword d) = None \<Longrightarrow>
   (\<exists>bad. parseKeywords_loop (pre @ d # post) acc = Inl (Returned (CidrParseError bad))
      \<and> ParseCIDR bad = None)
   \<or> (\<exists>l \<in> set pre. Type l \<noteq> ''cidr'' \<and> MustCompile_panics (Keyword l)
         \<and> parseKeywords_loop (pre @ d # post) acc
             = Inl (Panicked (MustCompilePanic (Keyword l))))"
proof (induction pre arbitrary: acc)
  case Nil
  then show ?case by simp
next
  case (Cons x pre)
  show ?case
  proof (cases "Type x = ''cidr''")
    case True
    show ?thesis
    proof (cases "ParseCIDR (Keyword x)")
      case None
      with True show ?thesis by simp
    next
      case (Some n)
      with True Cons.IH [OF Cons.prems,
          of "AList.update (Keyword x)
                \<lparr>regexp = Some cidr_re, keywordType = ''ip'', ipNet = Some n,
                 exceptions = Exceptions x\<rparr> acc"]
      show ?thesis by auto
    qed
  next
    case False
    show ?thesis
    proof (cases "MustCompile_panics (Keyword x)")
      case True
      with False show ?thesis by auto
    next
      case no: False
      with False Cons.IH [OF Cons.prems,
          of "AList.update (Keyword x)
                \<lparr>regexp = Some (literal_re (Keyword x)), keywordType = ''string'',
                 ipNet = None, exceptions = Exceptions x\<rparr> acc"]
      show ?thesis by auto
    qed
  qed
qed

lemma ParseCIDR_v6_any:
  "ParseCIDR ''::/0'' = Some \<lparr>IP = [0, 0, 0, 0, 0, 0, 0, 0, 0, 0, 0, 0, 0, 0, 0, 0], Mask = [0, 0, 0, 0, 0, 0, 0, 0, 0, 0, 0, 0, 0, 0, 0, 0]\<rparr>"
proof -
  have c: "cut_slash ''::/0'' = Some (''::'', ''0'')" by (simp add: cut_slash_def)
  have a: "ParseAddr ''::'' = Some (Addr6 [0, 0, 0, 0, 0, 0, 0, 0, 0, 0, 0, 0, 0, 0, 0, 0])"
    by (simp add: ParseAddr_def parseIPv6_def) code_simp
  have d: "dtoi ''0'' = (0, 1, True)" by (simp add: dtoi_def is_digit_def)
  have m: "CIDRMask 0 128 = [0, 0, 0, 0, 0, 0, 0, 0, 0, 0, 0, 0, 0, 0, 0, 0]" by code_simp
  have i: "IP_Mask [0, 0, 0, 0, 0, 0, 0, 0, 0, 0, 0, 0, 0, 0, 0, 0] [0, 0, 0, 0, 0, 0, 0, 0, 0, 0, 0, 0, 0, 0, 0, 0] = [0, 0, 0, 0, 0, 0, 0, 0, 0, 0, 0, 0, 0, 0, 0, 0]" by code_simp
  show ?thesis by (simp add: ParseCIDR_def c a d m i Let_def)
qed

text \<open>
  The claim C7 as it is stated, for a keyword that is not an IPv4 network, fails:
  \<open>net.ParseCIDR\<close> accepts IPv6 networks as well. The address \<open>::\<close> is no IPv4
  address, and the definition \<open>{keyword: "::/0", type: "cidr"}\<close> compiles to a rule.
\<close>

theorem ipv6_cidr_compiles:
  "parseIPv4Fields ''::'' = None
   \<and> parseKeywords [\<lparr>Keyword = ''::/0'', Type = ''cidr'', Exceptions = []\<rparr>] =
       Inr [(''::/0'',
             \<lparr>regexp = Some cidr_re, keywordType = ''ip'',
              ipNet = Some \<lparr>IP = [0, 0, 0, 0, 0, 0, 0, 0, 0, 0, 0, 0, 0, 0, 0, 0], Mask = [0, 0, 0, 0, 0, 0, 0, 0, 0, 0, 0, 0, 0, 0, 0, 0]\<rparr>, exceptions = []\<rparr>)]"
  by (simp add: parseKeywords_def ParseCIDR_v6_any parseIPv4Fields_def is_digit_def)

lemma ParseCIDR_no_slash: "ParseCIDR ''10.0.0.0'' = None"
  by (simp add: ParseCIDR_def cut_slash_def)

lemma panics_0xFF: "MustCompile_panics [CHR 0xFF]"
  by (simp add: MustCompile_panics_def byte_in_def)

text \<open>
  C7, amended. When a rule definition of the type \<open>cidr\<close> has a keyword that
  \<open>net.ParseCIDR\<close> does not parse (neither an IPv4 nor an IPv6 network),
  \<open>parseKeywords\<close> produces no rule set, whatever the definitions before and after the
  bad one are, and the process ends at its start: either \<open>parseKeywords\<close> returns the
  error of a keyword that \<open>net.ParseCIDR\<close> does not parse, and \<open>main\<close> ends with it,
  or \<open>regexp.MustCompile\<close> panics on the pattern of a literal definition that stands
  before the bad one. When the pattern of every literal definition before the bad one
  compiles, it is the error.
\<close>

theorem bad_cidr_aborts_startup:
  assumes "Keywords config = pre @ d # post" and "Type d = ''cidr''"
    and "ParseCIDR (Keyword d) = None"
  shows "((\<exists>bad. parseKeywords (Keywords config) = Inl (Returned (CidrParseError bad))
             \<and> ParseCIDR bad = None
             \<and> startup (Inr config) ParseDuration = Inl (KeywordsFatal (CidrParseError bad)))
          \<or> (\<exists>l \<in> set pre. Type l \<noteq> ''cidr'' \<and> MustCompile_panics (Keyword l)
                \<and> parseKeywords (Keywords config)
                    = Inl (Panicked (MustCompilePanic (Keyword l)))
                \<and> startup (Inr config) ParseDuration
                    = Inl (StartPanic (MustCompilePanic (Keyword l)))))
       \<and> ((\<forall>l \<in> set pre. Type l = ''cidr'' \<or> \<not> MustCompile_panics (Keyword l)) \<longrightarrow>
            (\<exists>bad. parseKeywords (Keywords config) = Inl (Returned (CidrParseError bad))
               \<and> ParseCIDR bad = None
               \<and> startup (Inr config) ParseDuration = Inl (KeywordsFatal (CidrParseError bad))))"
proof -
  from parseKeywords_loop_bad [OF assms(2,3), of pre post "[]"]
  have 1: "(\<exists>bad. parseKeywords (Keywords config) = Inl (Returned (CidrParseError bad))
             \<and> ParseCIDR bad = None
             \<and> startup (Inr config) ParseDuration = Inl (KeywordsFatal (CidrParseError bad)))
          \<or> (\<exists>l \<in> set pre. Type l \<noteq> ''cidr'' \<and> MustCompile_panics (Keyword l)
                \<and> parseKeywords (Keywords config)
                    = Inl (Panicked (MustCompilePanic (Keyword l)))
                \<and> startup (Inr config) ParseDuration
                    = Inl (StartPanic (MustCompilePanic (Keyword l))))"
    by (auto simp: parseKeywords_def startup_def assms(1))
  then show ?thesis by blast
qed

theorem bad_cidr_aborts_startup_witness:
  "ParseCIDR ''10.0.0.0'' = None
   \<and> \<not> MustCompile_panics ''password''
   \<and> parseKeywords [\<lparr>Keyword = ''password'', Type = ''literal'', Exceptions = []\<rparr>,
                    \<lparr>Keyword = ''10.0.0.0'', Type = ''cidr'', Exceptions = []\<rparr>]
       = Inl (Returned (CidrParseError ''10.0.0.0''))
   \<and> startup (Inr \<lparr>Keywords = [\<lparr>Keyword = ''password'', Type = ''literal'', Exceptions = []\<rparr>,
                                 \<lparr>Keyword = ''10.0.0.0'', Type = ''cidr'', Exceptions = []\<rparr>],
                     Timeout = ''10s'', Mailonerror = False\<rparr>) (\<lambda>s. Inr (10 * Second))
       = Inl (KeywordsFatal (CidrParseError ''10.0.0.0''))
   \<and> MustCompile_panics [CHR 0xFF]
   \<and> parseKeywords [\<lparr>Keyword = [CHR 0xFF], Type = ''literal'', Exceptions = []\<rparr>,
                    \<lparr>Keyword = ''10.0.0.0'', Type = ''cidr'', Exceptions = []\<rparr>]
       = Inl (Panicked (MustCompilePanic [CHR 0xFF]))"
  using bad_cidr_aborts_startup [where d = "\<lparr>Keyword = ''10.0.0.0'', Type = ''cidr'', Exceptions = []\<rparr>"
      and pre = "[\<lparr>Keyword = ''password'', Type = ''literal'', Exceptions = []\<rparr>]" and post = "[]"
      and config = "\<lparr>Keywords = [\<lparr>Keyword = ''password'', Type = ''literal'', Exceptions = []\<rparr>,
                                 \<lparr>Keyword = ''10.0.0.0'', Type = ''cidr'', Exceptions = []\<rparr>],
                     Timeout = ''10s'', Mailonerror = False\<rparr>"
      and ParseDuration = "\<lambda>s. Inr (10 * Second)"]
    bad_cidr_aborts_startup [where d = "\<lparr>Keyword = ''10.0.0.0'', Type = ''cidr'', Exceptions = []\<rparr>"
      and pre = "[\<lparr>Keyword = [CHR 0xFF], Type = ''literal'', Exceptions = []\<rparr>]" and post = "[]"
      and config = "\<lparr>Keywords = [\<lparr>Keyword = [CHR 0xFF], Type = ''literal'', Exceptions = []\<rparr>,
                                 \<lparr>Keyword = ''10.0.0.0'', Type = ''cidr'', Exceptions = []\<rparr>],
                     Timeout = ''10s'', Mailonerror = False\<rparr>"
      and ParseDuration = "\<lambda>s. Inr (10 * Second)"]
  by (simp add: parseKeywords_def startup_def ParseCIDR_no_slash compiles_password panics_0xFF)

section \<open>The exceptions of a rule of the type ip\<close>

lemma update_same_but:
  "list_all2 same_but_ip_exceptions ks ks' \<Longrightarrow> same_but_ip_exceptions (k, v) (k, v') \<Longrightarrow>
   list_all2 same_but_ip_exceptions (AList.update k v ks) (AList.update k v' ks')"
proof (induction ks ks' rule: list_all2_induct)
  case Nil
  then show ?case by simp
next
  case (Cons x xs y ys)
  then show ?case
    by (cases x; cases y) (auto simp: same_but_ip_exceptions_def)
qed

lemma parseKeywords_loop_same_but:
  "list_all2 same_but_cidr_exceptions ds ds' \<Longrightarrow> list_all2 same_but_ip_exceptions acc acc' \<Longrightarrow>
   (case parseKeywords_loop ds acc of
      Inl e \<Rightarrow> parseKeywords_loop ds' acc' = Inl e
    | Inr ks \<Rightarrow> \<exists>ks'. parseKeywords_loop ds' acc' = Inr ks' \<and> list_all2 same_but_ip_exceptions ks ks')"
proof (induction ds ds' arbitrary: acc acc' rule: list_all2_induct)
  case Nil
  then show ?case by simp
next
  case (Cons d ds d' ds')
  from Cons.hyps(1) have k: "Keyword d' = Keyword d" and t: "Type d' = Type d"
    and x: "Type d = ''cidr'' \<or> Exceptions d = Exceptions d'"
    by (auto simp: same_but_cidr_exceptions_def)
  show ?case
  proof (cases "Type d = ''cidr''")
    case True
    show ?thesis
    proof (cases "ParseCIDR (Keyword d)")
      case None
      with True k t show ?thesis by (auto split: sum.splits)
    next
      case (Some n)
      have "same_but_ip_exceptions
              (Keyword d, \<lparr>regexp = Some cidr_re, keywordType = ''ip'', ipNet = Some n,
                           exceptions = Exceptions d\<rparr>)
              (Keyword d, \<lparr>regexp = Some cidr_re, keywordType = ''ip'', ipNet = Some n,
                           exceptions = Exceptions d'\<rparr>)"
        by (simp add: same_but_ip_exceptions_def)
      from Cons.IH [OF update_same_but [OF Cons.prems this]] True Some k t
      show ?thesis by (auto split: sum.splits)
    qed
  next
    case False
    with x have "same_but_ip_exceptions
              (Keyword d, \<lparr>regexp = Some (literal_re (Keyword d)), keywordType = ''string'',
                           ipNet = None, exceptions = Exceptions d\<rparr>)
              (Keyword d, \<lparr>regexp = Some (literal_re (Keyword d)), keywordType = ''string'',
                           ipNet = None, exceptions = Exceptions d'\<rparr>)"
      by (simp add: same_but_ip_exceptions_def)
    from Cons.IH [OF update_same_but [OF Cons.prems this]] False k t
    show ?thesis by (auto split: sum.splits)
  qed
qed

lemma checkKeywords_body_same_but:
  "same_but_ip_exceptions (k, v) (k', v') \<Longrightarrow>
   checkKeywords_body body k v acc = checkKeywords_body body k' v' acc"
  by (auto simp: same_but_ip_exceptions_def checkKeywords_body_def Let_def
      split: prod.splits option.splits)

lemma checkKeywords_loop_same_but:
  "list_all2 same_but_ip_exceptions ks ks' \<Longrightarrow>
   checkKeywords_loop body ks acc = checkKeywords_loop body ks' acc"
proof (induction ks ks' arbitrary: acc rule: list_all2_induct)
  case Nil
  then show ?case by simp
next
  case (Cons x xs y ys)
  obtain k v k' v' where xy: "x = (k, v)" "y = (k', v')" by (cases x; cases y)
  from Cons.hyps(1) have "checkKeywords_body body k v acc = checkKeywords_body body k' v' acc"
    unfolding xy by (rule checkKeywords_body_same_but)
  with Cons.IH show ?case by (simp add: xy split: sum.splits)
qed

text \<open>
  C10. Two lists of rule definitions that differ only in the exceptions of definitions of
  the type \<open>cidr\<close> compile alike (both fail with the same error, or both succeed), and
  the two rule sets give the same result on every body: the exceptions of a rule of the
  type \<open>ip\<close> are never read.
\<close>

theorem cidr_exceptions_ignored:
  assumes "list_all2 same_but_cidr_exceptions ds ds'"
  shows "case parseKeywords ds of
           Inl e \<Rightarrow> parseKeywords ds' = Inl e
         | Inr ks \<Rightarrow>
             (\<exists>ks'. parseKeywords ds' = Inr ks'
                \<and> (\<forall>body. checkKeywords body ks' = checkKeywords body ks))"
proof -
  have "list_all2 same_but_ip_exceptions [] []" by simp
  from parseKeywords_loop_same_but [OF assms this] show ?thesis
    by (auto simp: parseKeywords_def checkKeywords_def checkKeywords_loop_same_but
        split: sum.splits)
qed

lemma parseKeywords_net10_exc:
  "parseKeywords [\<lparr>Keyword = ''10.0.0.0/8'', Type = ''cidr'', Exceptions = [''10.5'']\<rparr>] =
   Inr [(''10.0.0.0/8'',
         \<lparr>regexp = Some cidr_re, keywordType = ''ip'',
          ipNet = Some \<lparr>IP = [10, 0, 0, 0], Mask = [255, 0, 0, 0]\<rparr>, exceptions = [''10.5'']\<rparr>)]"
  by (simp add: parseKeywords_def ParseCIDR_10_0_0_0)

theorem cidr_exceptions_ignored_witness:
  "list_all2 same_but_cidr_exceptions
     [\<lparr>Keyword = ''10.0.0.0/8'', Type = ''cidr'', Exceptions = []\<rparr>]
     [\<lparr>Keyword = ''10.0.0.0/8'', Type = ''cidr'', Exceptions = [''10.5'']\<rparr>]
   \<and> checkKeywords ''contact ip 10.5.5.5 for access''
        [(''10.0.0.0/8'',
          \<lparr>regexp = Some cidr_re, keywordType = ''ip'',
           ipNet = Some \<lparr>IP = [10, 0, 0, 0], Mask = [255, 0, 0, 0]\<rparr>, exceptions = [''10.5'']\<rparr>)]
      = Inr (True, [''10.0.0.0/8'' \<mapsto> ''10.5.5.5''])"
proof -
  have h: "list_all2 same_but_cidr_exceptions
     [\<lparr>Keyword = ''10.0.0.0/8'', Type = ''cidr'', Exceptions = []\<rparr>]
     [\<lparr>Keyword = ''10.0.0.0/8'', Type = ''cidr'', Exceptions = [''10.5'']\<rparr>]"
    by (simp add: same_but_cidr_exceptions_def)
  have e: "checkKeywords ''contact ip 10.5.5.5 for access''
        [(''10.0.0.0/8'',
          \<lparr>regexp = Some cidr_re, keywordType = ''ip'',
           ipNet = Some \<lparr>IP = [10, 0, 0, 0], Mask = [255, 0, 0, 0]\<rparr>, exceptions = []\<rparr>)]
      = Inr (True, [''10.0.0.0/8'' \<mapsto> ''10.5.5.5''])"
    by (simp add: checkKeywords_def checkKeywords_body_def find_10_5_5_5
      TrimSpace_10_5_5_5 ParseIP_10_5_5_5 Contains_10_5_5_5)
  from cidr_exceptions_ignored [OF h] h e show ?thesis
    by (simp add: parseKeywords_net10 parseKeywords_net10_exc)
qed

section \<open>The rules are evaluated one by one\<close>

lemma set_update_cases: "e \<in> set (AList.update k v al) \<Longrightarrow> e = (k, v) \<or> e \<in> set al"
  by (induction al) (auto split: if_splits)

lemma distinct_parseKeywords_loop:
  "parseKeywords_loop ds acc = Inr ks \<Longrightarrow> distinct (map fst acc) \<Longrightarrow>
   \<forall>e \<in> set acc. wf_rule (snd e) \<Longrightarrow>
   distinct (map fst ks) \<and> (\<forall>e \<in> set ks. wf_rule (snd e))"
proof (induction ds arbitrary: acc)
  case Nil
  then show ?case by simp
next
  case (Cons d ds)
  have upd: "distinct (map fst (AList.update (Keyword d) v acc))
      \<and> (\<forall>e \<in> set (AList.update (Keyword d) v acc). wf_rule (snd e))" if "wf_rule v" for v
    using Cons.prems(2,3) that by (auto simp: distinct_update dest!: set_update_cases)
  show ?case
  proof (cases "Type d = ''cidr''")
    case True
    with Cons.prems(1) obtain n where n: "ParseCIDR (Keyword d) = Some n"
      by (auto split: option.splits)
    let ?v = "\<lparr>regexp = Some cidr_re, keywordType = ''ip'', ipNet = Some n,
               exceptions = Exceptions d\<rparr>"
    have "wf_rule ?v" by (simp add: wf_rule_def)
    from upd [OF this] Cons.prems(1) True n show ?thesis
      by (intro Cons.IH [of "AList.update (Keyword d) ?v acc"]) simp_all
  next
    case False
    let ?v = "\<lparr>regexp = Some (literal_re (Keyword d)), keywordType = ''string'', ipNet = None,
               exceptions = Exceptions d\<rparr>"
    have "wf_rule ?v" by (simp add: wf_rule_def)
    moreover from Cons.prems(1) False have "\<not> MustCompile_panics (Keyword d)"
      by (auto split: if_splits)
    ultimately show ?thesis using upd [of ?v] Cons.prems(1) False
      by (intro Cons.IH [of "AList.update (Keyword d) ?v acc"]) simp_all
  qed
qed

lemma parseKeywords_wf:
  "parseKeywords ds = Inr ks \<Longrightarrow> distinct (map fst ks) \<and> (\<forall>e \<in> set ks. wf_rule (snd e))"
  using distinct_parseKeywords_loop [of ds "[]" ks] by (simp add: parseKeywords_def)

lemma checkKeywords_body_alone:
  "wf_rule v \<Longrightarrow>
   checkKeywords_body body k v (status, found) =
     Inr (case rule_alone body k v of
            None \<Rightarrow> (status, found)
          | Some m \<Rightarrow> (True, found(k \<mapsto> m)))"
  by (auto simp: wf_rule_def rule_alone_def checkKeywords_def checkKeywords_body_def Let_def
      split: option.splits)

lemma checkKeywords_loop_alone:
  "distinct (map fst ks) \<Longrightarrow> \<forall>e \<in> set ks. wf_rule (snd e) \<Longrightarrow>
   checkKeywords_loop body ks (status, found) =
     Inr (status \<or> (\<exists>e \<in> set ks. rule_alone body (fst e) (snd e) \<noteq> None),
          \<lambda>k. case map_of ks k of
                 None \<Rightarrow> found k
               | Some v \<Rightarrow> (case rule_alone body k v of None \<Rightarrow> found k | Some m \<Rightarrow> Some m))"
proof (induction ks arbitrary: status found)
  case Nil
  then show ?case by simp
next
  case (Cons e ks)
  obtain k v where e: "e = (k, v)" by (cases e)
  from Cons.prems e have d: "distinct (map fst ks)" and w: "\<forall>e \<in> set ks. wf_rule (snd e)"
    and wv: "wf_rule v" and nk: "map_of ks k = None"
    by (auto simp: map_of_eq_None_iff)
  define st1 where "st1 = (status \<or> rule_alone body k v \<noteq> None)"
  define f1 where "f1 = (case rule_alone body k v of None \<Rightarrow> found | Some m \<Rightarrow> found(k \<mapsto> m))"
  have b: "checkKeywords_body body k v (status, found) = Inr (st1, f1)"
    by (simp add: checkKeywords_body_alone [OF wv] st1_def f1_def split: option.splits)
  have "checkKeywords_loop body (e # ks) (status, found) = checkKeywords_loop body ks (st1, f1)"
    by (simp add: e b)
  also note Cons.IH [OF d w, of st1 f1]
  finally have r: "checkKeywords_loop body (e # ks) (status, found) =
     Inr (st1 \<or> (\<exists>e \<in> set ks. rule_alone body (fst e) (snd e) \<noteq> None),
          \<lambda>k. case map_of ks k of
                 None \<Rightarrow> f1 k
               | Some v \<Rightarrow> (case rule_alone body k v of None \<Rightarrow> f1 k | Some m \<Rightarrow> Some m))" .
  have s: "(st1 \<or> (\<exists>e \<in> set ks. rule_alone body (fst e) (snd e) \<noteq> None))
           = (status \<or> (\<exists>e \<in> set (e # ks). rule_alone body (fst e) (snd e) \<noteq> None))"
    by (auto simp: st1_def e)
  have f: "(case map_of ks k' of
              None \<Rightarrow> f1 k'
            | Some v \<Rightarrow> (case rule_alone body k' v of None \<Rightarrow> f1 k' | Some m \<Rightarrow> Some m))
         = (case map_of (e # ks) k' of
              None \<Rightarrow> found k'
            | Some v \<Rightarrow> (case rule_alone body k' v of None \<Rightarrow> found k' | Some m \<Rightarrow> Some m))" for k'
    using nk by (auto simp: f1_def e split: option.splits)
  show ?case unfolding r s f ..
qed

text \<open>
  C3. On a compiled rule set \<open>checkKeywords\<close> returns a result for every body; what it
  records for a key is what the rule of that key records when it is evaluated alone, and
  nothing for a key without a rule; the status is true exactly when something is
  recorded; and the result is the same for every order in which the entries of the rule
  set are visited.
\<close>

theorem rules_independent:
  assumes "parseKeywords ds = Inr ks"
  shows "\<exists>status found.
           checkKeywords body ks = Inr (status, found)
           \<and> (\<forall>k. found k = (case map_of ks k of None \<Rightarrow> None | Some v \<Rightarrow> rule_alone body k v))
           \<and> (status \<longleftrightarrow> (\<exists>k. found k \<noteq> None))
           \<and> (\<forall>ks'. distinct (map fst ks') \<and> set ks' = set ks
                 \<longrightarrow> checkKeywords body ks' = Inr (status, found))"
proof -
  from parseKeywords_wf [OF assms] have d: "distinct (map fst ks)"
    and w: "\<forall>e \<in> set ks. wf_rule (snd e)" by simp_all
  let ?found = "\<lambda>k. case map_of ks k of None \<Rightarrow> None | Some v \<Rightarrow> rule_alone body k v"
  let ?status = "\<exists>e \<in> set ks. rule_alone body (fst e) (snd e) \<noteq> None"
  have f: "(\<lambda>k. case map_of ks k of
                 None \<Rightarrow> Map.empty k
               | Some v \<Rightarrow> (case rule_alone body k v of None \<Rightarrow> Map.empty k | Some m \<Rightarrow> Some m))
           = ?found"
    by (auto intro!: ext split: option.splits)
  have r: "checkKeywords body ks = Inr (?status, ?found)"
    unfolding checkKeywords_def checkKeywords_loop_alone [OF d w] f by simp
  have s: "?status \<longleftrightarrow> (\<exists>k. ?found k \<noteq> None)"
  proof
    assume ?status
    then obtain k v where "(k, v) \<in> set ks" "rule_alone body k v \<noteq> None" by auto
    with d have "?found k \<noteq> None" by simp
    then show "\<exists>k. ?found k \<noteq> None" ..
  next
    assume "\<exists>k. ?found k \<noteq> None"
    then obtain k where "?found k \<noteq> None" ..
    then obtain v where "map_of ks k = Some v" "rule_alone body k v \<noteq> None"
      by (auto split: option.splits)
    then show ?status by (force dest: map_of_SomeD)
  qed
  have o: "checkKeywords body ks' = Inr (?status, ?found)"
    if "distinct (map fst ks')" "set ks' = set ks" for ks'
  proof -
    from that d have m: "map_of ks' = map_of ks" by (simp add: map_of_inject_set)
    from that(2) w have w': "\<forall>e \<in> set ks'. wf_rule (snd e)" by simp
    have f': "(\<lambda>k. case map_of ks k of
                 None \<Rightarrow> Map.empty k
               | Some v \<Rightarrow> (case rule_alone body k v of None \<Rightarrow> Map.empty k | Some m \<Rightarrow> Some m))
           = ?found"
      by (rule f)
    show ?thesis
      unfolding checkKeywords_def checkKeywords_loop_alone [OF that(1) w'] m that(2) f' by simp
  qed
  from r s o show ?thesis by blast
qed

lemma parseKeywords_two:
  "parseKeywords [\<lparr>Keyword = ''10.0.0.0/8'', Type = ''cidr'', Exceptions = []\<rparr>,
                  \<lparr>Keyword = ''contact'', Type = ''literal'', Exceptions = []\<rparr>] =
   Inr [(''10.0.0.0/8'',
         \<lparr>regexp = Some cidr_re, keywordType = ''ip'',
          ipNet = Some \<lparr>IP = [10, 0, 0, 0], Mask = [255, 0, 0, 0]\<rparr>, exceptions = []\<rparr>),
        (''contact'',
         \<lparr>regexp = Some (literal_re ''contact''), keywordType = ''string'', ipNet = None,
          exceptions = []\<rparr>)]"
  by (simp add: parseKeywords_def ParseCIDR_10_0_0_0 compiles_contact)

theorem rules_independent_witness:
  "parseKeywords [\<lparr>Keyword = ''10.0.0.0/8'', Type = ''cidr'', Exceptions = []\<rparr>,
                  \<lparr>Keyword = ''contact'', Type = ''literal'', Exceptions = []\<rparr>] =
   Inr [(''10.0.0.0/8'',
         \<lparr>regexp = Some cidr_re, keywordType = ''ip'',
          ipNet = Some \<lparr>IP = [10, 0, 0, 0], Mask = [255, 0, 0, 0]\<rparr>, exceptions = []\<rparr>),
        (''contact'',
         \<lparr>regexp = Some (literal_re ''contact''), keywordType = ''string'', ipNet = None,
          exceptions = []\<rparr>)]
   \<and> checkKeywords ''contact ip 10.5.5.5 for access''
        [(''contact'',
         \<lparr>regexp = Some (literal_re ''contact''), keywordType = ''string'', ipNet = None,
          exceptions = []\<rparr>),
         (''10.0.0.0/8'',
         \<lparr>regexp = Some cidr_re, keywordType = ''ip'',
          ipNet = Some \<lparr>IP = [10, 0, 0, 0], Mask = [255, 0, 0, 0]\<rparr>, exceptions = []\<rparr>)]
      = checkKeywords ''contact ip 10.5.5.5 for access''
        [(''10.0.0.0/8'',
         \<lparr>regexp = Some cidr_re, keywordType = ''ip'',
          ipNet = Some \<lparr>IP = [10, 0, 0, 0], Mask = [255, 0, 0, 0]\<rparr>, exceptions = []\<rparr>),
        (''contact'',
         \<lparr>regexp = Some (literal_re ''contact''), keywordType = ''string'', ipNet = None,
          exceptions = []\<rparr>)]"
proof -
  let ?a = "(''10.0.0.0/8'',
         \<lparr>regexp = Some cidr_re, keywordType = ''ip'',
          ipNet = Some \<lparr>IP = [10, 0, 0, 0], Mask = [255, 0, 0, 0]\<rparr>, exceptions = []\<rparr>)"
  let ?b = "(''contact'',
         \<lparr>regexp = Some (literal_re ''contact''), keywordType = ''string'', ipNet = None,
          exceptions = []\<rparr>)"
  from rules_independent [OF parseKeywords_two, of "''contact ip 10.5.5.5 for access''"]
  obtain status found
    where r: "checkKeywords ''contact ip 10.5.5.5 for access'' [?a, ?b] = Inr (status, found)"
      and o: "\<forall>ks'. distinct (map fst ks') \<and> set ks' = set [?a, ?b]
                 \<longrightarrow> checkKeywords ''contact ip 10.5.5.5 for access'' ks' = Inr (status, found)"
    by blast
  have "distinct (map fst [?b, ?a]) \<and> set [?b, ?a] = set [?a, ?b]" by auto
  with o have "checkKeywords ''contact ip 10.5.5.5 for access'' [?b, ?a] = Inr (status, found)"
    by blast
  with r parseKeywords_two show ?thesis by simp
qed

section \<open>What the matcher finds\<close>

text \<open>
  The positions that \<open>step\<close> returns are reached by reading a part of the text; the
  lemmas below say which parts, for the operators and for the pattern of a literal rule,
  and what \<open>find_from\<close> returns: the preferred match at the first start position that
  has one.
\<close>

lemma prevc_Nil [simp]: "prevc p [] = p"
  by (simp add: prevc_def)

lemma prevc_Cons [simp]: "prevc p (c # m) = prevc (Some c) m"
  by (simp add: prevc_def)

lemma prevc_append [simp]: "prevc p (m @ n) = prevc (prevc p m) n"
  by (simp add: prevc_def)

lemma step_suffix:
  "x \<in> set (step r s) \<Longrightarrow> \<exists>m. snd s = m @ snd x \<and> fst x = prevc (fst s) m"
proof (induction r s arbitrary: x rule: step.induct)
  case (5 a p c cs)
  show ?case
  proof (cases "atom_ok a c \<and> x \<in> set (step (Star a) (Some c, cs))")
    case True
    with "5.IH" [of x] obtain m where "cs = m @ snd x" "fst x = prevc (Some c) m" by auto
    then have "snd (p, c # cs) = (c # m) @ snd x \<and> fst x = prevc (fst (p, c # cs)) (c # m)" by simp
    then show ?thesis ..
  next
    case False
    with "5.prems" have "x = (p, c # cs)" by (auto split: if_splits)
    then have "snd (p, c # cs) = [] @ snd x \<and> fst x = prevc (fst (p, c # cs)) []" by simp
    then show ?thesis ..
  qed
next
  case (6 r s)
  show ?case
  proof (cases "x \<in> set (step r s)")
    case True
    then show ?thesis by (rule "6.IH")
  next
    case False
    with "6.prems" have "x = s" by simp
    then have "snd s = [] @ snd x \<and> fst x = prevc (fst s) []" by simp
    then show ?thesis ..
  qed
next
  case (7 r1 r2 s)
  from "7.prems" obtain y where y: "y \<in> set (step r1 s)" and x: "x \<in> set (step r2 y)" by auto
  from "7.IH"(1) [OF y] obtain m where m: "snd s = m @ snd y" "fst y = prevc (fst s) m" by auto
  from "7.IH"(2) [OF y x] obtain n where n: "snd y = n @ snd x" "fst x = prevc (fst y) n" by auto
  from m n have "snd s = (m @ n) @ snd x \<and> fst x = prevc (fst s) (m @ n)" by simp
  then show ?case ..
qed (auto split: if_splits intro: exI [of _ "[]"] exI [of _ "[c]" for c])



lemma step_cat_Nil [simp]: "step (cat []) s = [s]"
  by (simp add: cat_def)

lemma step_cat_Cons [simp]: "step (cat (x # xs)) s = concat (map (step (cat xs)) (step x s))"
  by (simp add: cat_def)




lemma find_from_None_iff:
  "find_from r p t = None \<longleftrightarrow> (\<forall>pre suf. t = pre @ suf \<longrightarrow> step r (prevc p pre, suf) = [])"
proof (induction t arbitrary: p)
  case Nil
  then show ?case by (auto split: list.splits)
next
  case (Cons c cs)
  show ?case
  proof (cases "step r (p, c # cs)")
    case Nil
    have "(\<forall>pre suf. c # cs = pre @ suf \<longrightarrow> step r (prevc p pre, suf) = [])
          \<longleftrightarrow> (\<forall>pre suf. cs = pre @ suf \<longrightarrow> step r (prevc (Some c) pre, suf) = [])"
    proof (intro iffI allI impI)
      fix pre suf
      assume a: "\<forall>pre suf. c # cs = pre @ suf \<longrightarrow> step r (prevc p pre, suf) = []"
        and "cs = pre @ suf"
      then have "c # cs = (c # pre) @ suf" by simp
      with a have "step r (prevc p (c # pre), suf) = []" by blast
      then show "step r (prevc (Some c) pre, suf) = []" by simp
    next
      fix pre suf
      assume a: "\<forall>pre suf. cs = pre @ suf \<longrightarrow> step r (prevc (Some c) pre, suf) = []"
        and e: "c # cs = pre @ suf"
      show "step r (prevc p pre, suf) = []"
      proof (cases pre)
        case Nil
        with e \<open>step r (p, c # cs) = []\<close> show ?thesis by simp
      next
        case (Cons d pre')
        with e a show ?thesis by simp
      qed
    qed
    with Cons.IH [of "Some c"] Nil show ?thesis by simp
  next
    case (Cons x xs)
    then have "c # cs = [] @ (c # cs) \<and> step r (prevc p [], c # cs) \<noteq> []" by simp
    then have "\<not> (\<forall>pre suf. c # cs = pre @ suf \<longrightarrow> step r (prevc p pre, suf) = [])" by blast
    with Cons show ?thesis by (simp split: prod.splits)
  qed
qed

lemma find_from_Some:
  "find_from r p t = Some m \<Longrightarrow>
   \<exists>pre post q. t = pre @ m @ post \<and> (q, post) \<in> set (step r (prevc p pre, m @ post))
      \<and> (\<forall>pre1 suf1. t = pre1 @ suf1 \<and> length pre1 < length pre
            \<longrightarrow> step r (prevc p pre1, suf1) = [])"
proof (induction t arbitrary: p)
  case Nil
  then have "m = []" and "step r (p, []) \<noteq> []" by (auto split: list.splits)
  then obtain x where x: "x \<in> set (step r (p, []))" by (cases "step r (p, [])") auto
  from step_suffix [OF x] have "snd x = []" by auto
  then have "x = (fst x, [])" by (cases x) simp
  with x have "(fst x, []) \<in> set (step r (p, []))" by metis
  with \<open>m = []\<close> have "[] = [] @ m @ [] \<and> (fst x, []) \<in> set (step r (prevc p [], m @ []))
      \<and> (\<forall>pre1 suf1. [] = pre1 @ suf1 \<and> length pre1 < length ([]::string)
            \<longrightarrow> step r (prevc p pre1, suf1) = [])" by simp
  then show ?case by blast
next
  case (Cons c cs)
  show ?case
  proof (cases "step r (p, c # cs)")
    case Nil
    with Cons.prems have "find_from r (Some c) cs = Some m" by simp
    from Cons.IH [OF this] obtain pre post q where cs: "cs = pre @ m @ post"
      and q: "(q, post) \<in> set (step r (prevc (Some c) pre, m @ post))"
      and f: "\<forall>pre1 suf1. cs = pre1 @ suf1 \<and> length pre1 < length pre
            \<longrightarrow> step r (prevc (Some c) pre1, suf1) = []" by blast
    have "step r (prevc p pre1, suf1) = []"
      if "c # cs = pre1 @ suf1" "length pre1 < length (c # pre)" for pre1 suf1
    proof (cases pre1)
      case Nil
      with that \<open>step r (p, c # cs) = []\<close> show ?thesis by simp
    next
      case (Cons d pre')
      with that f show ?thesis by simp
    qed
    with cs q have "c # cs = (c # pre) @ m @ post
      \<and> (q, post) \<in> set (step r (prevc p (c # pre), m @ post))
      \<and> (\<forall>pre1 suf1. c # cs = pre1 @ suf1 \<and> length pre1 < length (c # pre)
            \<longrightarrow> step r (prevc p pre1, suf1) = [])" by simp
    then show ?thesis by blast
  next
    case (Cons x xs)
    obtain q rest where x: "x = (q, rest)" by (cases x)
    from Cons x Cons.prems have m: "m = take (Suc (length cs) - length rest) (c # cs)" by simp
    from Cons x have mem: "(q, rest) \<in> set (step r (p, c # cs))" by simp
    from step_suffix [OF mem] obtain m' where m': "c # cs = m' @ rest" by auto
    then have "length (c # cs) = length m' + length rest" by (metis length_append)
    with m m' have "m = m'" by (metis add_diff_cancel_right' append_eq_conv_conj length_Cons)
    with m' mem have "c # cs = [] @ m @ rest \<and> (q, rest) \<in> set (step r (prevc p [], m @ rest))
      \<and> (\<forall>pre1 suf1. c # cs = pre1 @ suf1 \<and> length pre1 < length ([]::string)
            \<longrightarrow> step r (prevc p pre1, suf1) = [])" by simp
    then show ?thesis by blast
  qed
qed

section \<open>The pattern of a literal rule matches whole lines\<close>

lemma not_word_newline [simp]: "\<not> is_word_char (CHR 0x0A)"
  by (simp add: is_word_char_def is_digit_def is_upper_def is_lower_def)








section \<open>Literal rules\<close>





lemma parseKeywords_loop_shape:
  assumes "parseKeywords_loop ds acc = Inr ks"
    and "\<And>k v. map_of acc k = Some v \<Longrightarrow>
           (keywordType v = ''ip'' \<and> regexp v = Some cidr_re \<and> ipNet v \<noteq> None \<and> ipNet v = ParseCIDR k)
           \<or> (keywordType v = ''string'' \<and> regexp v = Some (literal_re k))"
    and "map_of ks k = Some v"
  shows "(keywordType v = ''ip'' \<and> regexp v = Some cidr_re \<and> ipNet v \<noteq> None \<and> ipNet v = ParseCIDR k)
         \<or> (keywordType v = ''string'' \<and> regexp v = Some (literal_re k))"
  using assms
proof (induction ds arbitrary: acc)
  case Nil
  then show ?case by simp
next
  case (Cons d ds)
  show ?case
  proof (cases "Type d = ''cidr''")
    case True
    with Cons.prems(1) obtain n where n: "ParseCIDR (Keyword d) = Some n"
      by (auto split: option.splits)
    let ?v = "\<lparr>regexp = Some cidr_re, keywordType = ''ip'', ipNet = Some n,
               exceptions = Exceptions d\<rparr>"
    from Cons.prems(1) True n
    have l: "parseKeywords_loop ds (AList.update (Keyword d) ?v acc) = Inr ks" by simp
    show ?thesis
    proof (rule Cons.IH [OF l _ Cons.prems(3)])
      fix k' v'
      assume "map_of (AList.update (Keyword d) ?v acc) k' = Some v'"
      with Cons.prems(2) [of k' v'] n
      show "(keywordType v' = ''ip'' \<and> regexp v' = Some cidr_re \<and> ipNet v' \<noteq> None \<and> ipNet v' = ParseCIDR k')
         \<or> (keywordType v' = ''string'' \<and> regexp v' = Some (literal_re k'))"
        by (auto simp: update_conv' split: if_splits)
    qed
  next
    case False
    let ?v = "\<lparr>regexp = Some (literal_re (Keyword d)), keywordType = ''string'', ipNet = None,
               exceptions = Exceptions d\<rparr>"
    from Cons.prems(1) False
    have l: "parseKeywords_loop ds (AList.update (Keyword d) ?v acc) = Inr ks"
      by (auto split: if_splits)
    show ?thesis
    proof (rule Cons.IH [OF l _ Cons.prems(3)])
      fix k' v'
      assume "map_of (AList.update (Keyword d) ?v acc) k' = Some v'"
      with Cons.prems(2) [of k' v']
      show "(keywordType v' = ''ip'' \<and> regexp v' = Some cidr_re \<and> ipNet v' \<noteq> None \<and> ipNet v' = ParseCIDR k')
         \<or> (keywordType v' = ''string'' \<and> regexp v' = Some (literal_re k'))"
        by (auto simp: update_conv' split: if_splits)
    qed
  qed
qed

lemma parseKeywords_shape:
  "parseKeywords ds = Inr ks \<Longrightarrow> map_of ks k = Some v \<Longrightarrow>
   (keywordType v = ''ip'' \<and> regexp v = Some cidr_re \<and> ipNet v \<noteq> None \<and> ipNet v = ParseCIDR k)
   \<or> (keywordType v = ''string'' \<and> regexp v = Some (literal_re k))"
  unfolding parseKeywords_def by (erule parseKeywords_loop_shape) simp_all

lemma checkKeywords_compiled:
  assumes "parseKeywords ds = Inr ks"
  shows "\<exists>status. checkKeywords body ks =
           Inr (status, \<lambda>k. case map_of ks k of None \<Rightarrow> None | Some v \<Rightarrow> rule_alone body k v)"
proof -
  from parseKeywords_wf [OF assms] have d: "distinct (map fst ks)"
    and w: "\<forall>e \<in> set ks. wf_rule (snd e)" by simp_all
  have f: "(\<lambda>k. case map_of ks k of
                 None \<Rightarrow> Map.empty k
               | Some v \<Rightarrow> (case rule_alone body k v of None \<Rightarrow> Map.empty k | Some m \<Rightarrow> Some m))
           = (\<lambda>k. case map_of ks k of None \<Rightarrow> None | Some v \<Rightarrow> rule_alone body k v)"
    by (auto intro!: ext split: option.splits)
  show ?thesis
    unfolding checkKeywords_def checkKeywords_loop_alone [OF d w] f by blast
qed










section \<open>Rules of the type ip\<close>

lemma step_cat_Cons_iff:
  "z \<in> set (step (cat (x # xs)) s) \<longleftrightarrow> (\<exists>y \<in> set (step x s). z \<in> set (step (cat xs) y))"
  by simp

lemma octet_text_cases:
  "octet_text a \<longleftrightarrow>
     (\<exists>c1. a = [c1] \<and> is_digit c1)
     \<or> (\<exists>c1 c2. a = [c1, c2] \<and> is_digit c1 \<and> is_digit c2)
     \<or> (\<exists>c1 c2 c3. a = [c1, c2, c3] \<and> is_digit c1 \<and> is_digit c2 \<and> is_digit c3)"
proof (cases a)
  case Nil
  then show ?thesis by (simp add: octet_text_def)
next
  case a1: (Cons c1 a1)
  show ?thesis
  proof (cases a1)
    case Nil
    with a1 show ?thesis by (simp add: octet_text_def)
  next
    case a2: (Cons c2 a2)
    show ?thesis
    proof (cases a2)
      case Nil
      with a1 a2 show ?thesis by (simp add: octet_text_def)
    next
      case a3: (Cons c3 a3)
      with a1 a2 show ?thesis by (cases a3) (simp_all add: octet_text_def)
    qed
  qed
qed

lemma step_octet_iff:
  "(q, r') \<in> set (step octet_re (p, r)) \<longleftrightarrow> (\<exists>a. r = a @ r' \<and> octet_text a \<and> q = prevc p a)"
proof (cases r)
  case Nil
  then show ?thesis by (auto simp: octet_re_def octet_text_def)
next
  case r1: (Cons c1 r1)
  show ?thesis
  proof (cases r1)
    case Nil
    with r1 show ?thesis
      by (auto simp: octet_re_def octet_text_cases Cons_eq_append_conv)
  next
    case r2: (Cons c2 r2)
    show ?thesis
    proof (cases r2)
      case Nil
      with r1 r2 show ?thesis
        by (auto simp: octet_re_def octet_text_cases Cons_eq_append_conv)
    next
      case r3: (Cons c3 r3)
      with r1 r2 show ?thesis
        by (auto simp: octet_re_def octet_text_cases Cons_eq_append_conv)
    qed
  qed
qed

lemma step_octet_cat_iff:
  "(q, r') \<in> set (step (cat (octet_re # rs)) (p, r)) \<longleftrightarrow>
     (\<exists>a r1. r = a @ r1 \<and> octet_text a \<and> (q, r') \<in> set (step (cat rs) (prevc p a, r1)))"
  unfolding step_cat_Cons_iff using step_octet_iff by (auto simp: Bex_def)

lemma step_dot_cat_iff:
  "(q, r') \<in> set (step (cat (dot_re # rs)) (p, r)) \<longleftrightarrow>
     (\<exists>r1. r = CHR ''.'' # r1 \<and> (q, r') \<in> set (step (cat rs) (Some (CHR ''.''), r1)))"
  by (cases r) (auto simp: dot_re_def)

lemma step_boundary_cat_iff:
  "(q, r') \<in> set (step (cat (WordBoundary # rs)) (p, r)) \<longleftrightarrow>
     word_before p \<noteq> word_after r \<and> (q, r') \<in> set (step (cat rs) (p, r))"
  by auto

lemma octet_text_word:
  "octet_text a \<Longrightarrow> word_after (a @ x) \<and> word_before (prevc p a) \<and> a \<noteq> []"
proof -
  assume o: "octet_text a"
  then obtain c a' where a: "a = c # a'" by (cases a) (auto simp: octet_text_def)
  with o have 1: "word_after (a @ x)"
    by (simp add: word_after_def octet_text_def is_word_char_def)
  from a have "last a \<in> set a" by simp
  with o have "is_digit (last a)" by (simp add: octet_text_def list_all_iff)
  with a have 2: "word_before (prevc p a)"
    by (simp add: word_before_def prevc_def is_word_char_def)
  from 1 2 a show ?thesis by simp
qed

lemma step_cidr_iff:
  "(q, r') \<in> set (step cidr_re (p, r)) \<longleftrightarrow>
     (\<exists>s. r = s @ r' \<and> dotted_quad s \<and> \<not> word_before p \<and> \<not> word_after r' \<and> q = prevc p s)"
  (is "?L \<longleftrightarrow> ?R")
proof
  assume ?L
  then obtain a b c d where r: "r = a @ CHR ''.'' # b @ CHR ''.'' # c @ CHR ''.'' # d @ r'"
    and o: "octet_text a" "octet_text b" "octet_text c" "octet_text d"
    and wb: "word_before p \<noteq> word_after r"
    and we: "word_before (prevc (Some (CHR ''.'')) d) \<noteq> word_after r'"
    and q: "q = prevc (Some (CHR ''.'')) d"
    unfolding cidr_re_def step_boundary_cat_iff step_octet_cat_iff step_dot_cat_iff
    by auto
  from wb r octet_text_word [OF o(1)] have 1: "\<not> word_before p" by simp
  from we octet_text_word [OF o(4)] have 2: "\<not> word_after r'" by simp
  from octet_text_word [OF o(4)] q have 3: "q = prevc p (a @ ''.'' @ b @ ''.'' @ c @ ''.'' @ d)"
    by (simp add: prevc_def)
  from r have 4: "r = (a @ ''.'' @ b @ ''.'' @ c @ ''.'' @ d) @ r'" by simp
  from o have "dotted_quad (a @ ''.'' @ b @ ''.'' @ c @ ''.'' @ d)"
    unfolding dotted_quad_def by blast
  with 1 2 3 4 show ?R by blast
next
  assume ?R
  then obtain s a b c d where s: "r = s @ r'" "s = a @ ''.'' @ b @ ''.'' @ c @ ''.'' @ d"
    and o: "octet_text a" "octet_text b" "octet_text c" "octet_text d"
    and w: "\<not> word_before p" "\<not> word_after r'" and q: "q = prevc p s"
    unfolding dotted_quad_def by blast
  from s have r: "r = a @ CHR ''.'' # b @ CHR ''.'' # c @ CHR ''.'' # d @ r'" by simp
  from w r octet_text_word [OF o(1)] have wb: "word_before p \<noteq> word_after r" by simp
  from w octet_text_word [OF o(4)]
  have we: "word_before (prevc (Some (CHR ''.'')) d) \<noteq> word_after r'" by simp
  from octet_text_word [OF o(4)] q s have q': "q = prevc (Some (CHR ''.'')) d"
    by (simp add: prevc_def)
  have "(q, r') \<in> set (step (cat [WordBoundary]) (prevc (Some (CHR ''.'')) d, r'))"
    using we q' by simp
  with o(4) have "(q, r') \<in> set (step (cat [octet_re, WordBoundary]) (Some (CHR ''.''), d @ r'))"
    unfolding step_octet_cat_iff by blast
  then have "(q, r') \<in> set (step (cat [dot_re, octet_re, WordBoundary]) (prevc x c, CHR ''.'' # d @ r'))" for x
    unfolding step_dot_cat_iff by blast
  with o(3) have "(q, r') \<in> set (step (cat [octet_re, dot_re, octet_re, WordBoundary])
       (Some (CHR ''.''), c @ CHR ''.'' # d @ r'))"
    unfolding step_octet_cat_iff by blast
  then have "(q, r') \<in> set (step (cat [dot_re, octet_re, dot_re, octet_re, WordBoundary])
       (prevc x b, CHR ''.'' # c @ CHR ''.'' # d @ r'))" for x
    unfolding step_dot_cat_iff by blast
  with o(2) have "(q, r') \<in> set (step (cat [octet_re, dot_re, octet_re, dot_re, octet_re, WordBoundary])
       (Some (CHR ''.''), b @ CHR ''.'' # c @ CHR ''.'' # d @ r'))"
    unfolding step_octet_cat_iff by blast
  then have "(q, r') \<in> set (step (cat [dot_re, octet_re, dot_re, octet_re, dot_re, octet_re, WordBoundary])
       (prevc x a, CHR ''.'' # b @ CHR ''.'' # c @ CHR ''.'' # d @ r'))" for x
    unfolding step_dot_cat_iff by blast
  with o(1) r have "(q, r') \<in> set (step (cat [octet_re, dot_re, octet_re, dot_re, octet_re, dot_re, octet_re, WordBoundary])
       (p, r))"
    unfolding step_octet_cat_iff by blast
  with wb show ?L
    unfolding cidr_re_def step_boundary_cat_iff by blast
qed

lemma find_1_1_1_1:
  "FindStringSubmatch cidr_re ''from 1.1.1.1 to 10.5.5.5'' = Some ''1.1.1.1''"
  by code_simp

lemma TrimSpace_1_1_1_1: "TrimSpace ''1.1.1.1'' = ''1.1.1.1''"
  by code_simp

lemma ParseIP_1_1_1_1:
  "ParseIP ''1.1.1.1'' = Some [0, 0, 0, 0, 0, 0, 0, 0, 0, 0, 255, 255, 1, 1, 1, 1]"
  by code_simp

lemma not_Contains_1_1_1_1:
  "\<not> IPNet_Contains \<lparr>IP = [10, 0, 0, 0], Mask = [255, 0, 0, 0]\<rparr>
       [0, 0, 0, 0, 0, 0, 0, 0, 0, 0, 255, 255, 1, 1, 1, 1]"
  by code_simp

text \<open>
  The claim C2 as it is stated, for any dotted quad of the body, fails: the rule looks at
  the first candidate only. In \<open>from 1.1.1.1 to 10.5.5.5\<close> the address \<open>10.5.5.5\<close> lies
  in the network \<open>10.0.0.0/8\<close> of the rule, and nothing is recorded.
\<close>

theorem later_quad_not_examined:
  "parseKeywords [\<lparr>Keyword = ''10.0.0.0/8'', Type = ''cidr'', Exceptions = []\<rparr>] =
     Inr [(''10.0.0.0/8'',
           \<lparr>regexp = Some cidr_re, keywordType = ''ip'',
            ipNet = Some \<lparr>IP = [10, 0, 0, 0], Mask = [255, 0, 0, 0]\<rparr>, exceptions = []\<rparr>)]
   \<and> ''from 1.1.1.1 to 10.5.5.5'' = ''from 1.1.1.1 to '' @ ''10.5.5.5''
   \<and> ParseIP ''10.5.5.5'' = Some [0, 0, 0, 0, 0, 0, 0, 0, 0, 0, 255, 255, 10, 5, 5, 5]
   \<and> IPNet_Contains \<lparr>IP = [10, 0, 0, 0], Mask = [255, 0, 0, 0]\<rparr>
        [0, 0, 0, 0, 0, 0, 0, 0, 0, 0, 255, 255, 10, 5, 5, 5]
   \<and> checkKeywords ''from 1.1.1.1 to 10.5.5.5''
        [(''10.0.0.0/8'',
          \<lparr>regexp = Some cidr_re, keywordType = ''ip'',
           ipNet = Some \<lparr>IP = [10, 0, 0, 0], Mask = [255, 0, 0, 0]\<rparr>, exceptions = []\<rparr>)]
       = Inr (False, Map.empty)"
  by (simp add: parseKeywords_net10 ParseIP_10_5_5_5 Contains_10_5_5_5 checkKeywords_def
      checkKeywords_body_def find_1_1_1_1 TrimSpace_1_1_1_1 ParseIP_1_1_1_1 not_Contains_1_1_1_1)

lemma space_width_other_start:
  "\<forall>e \<in> set encs. e \<noteq> [] \<and> hd e \<noteq> c \<Longrightarrow> space_width encs (c # cs) = 0"
proof -
  assume a: "\<forall>e \<in> set encs. e \<noteq> [] \<and> hd e \<noteq> c"
  have "\<not> HasPrefix (c # cs) e" if "e \<in> set encs" for e
    using a that by (cases e) auto
  then have "filter (HasPrefix (c # cs)) encs = []" by (simp add: filter_empty_conv)
  then show ?thesis by (simp add: space_width_def)
qed

lemma trim_start_id:
  "s \<noteq> [] \<Longrightarrow> \<forall>e \<in> set encs. e \<noteq> [] \<and> hd e \<noteq> hd s \<Longrightarrow> trim_start encs s = s"
  by (cases s) (simp_all add: space_width_other_start)

lemma digit_starts_no_space:
  "is_digit c \<Longrightarrow> \<forall>e \<in> set space_encodings. e \<noteq> [] \<and> hd e \<noteq> c"
  by (auto simp: space_encodings_def is_digit_def)

lemma digit_ends_no_space:
  "is_digit c \<Longrightarrow> \<forall>e \<in> set (map rev space_encodings). e \<noteq> [] \<and> hd e \<noteq> c"
  by (auto simp: space_encodings_def is_digit_def)

lemma TrimSpace_id:
  assumes "s \<noteq> []" and "is_digit (hd s)" and "is_digit (last s)"
  shows "TrimSpace s = s"
proof -
  from assms(1,2) have 1: "trim_start space_encodings s = s"
    by (simp add: trim_start_id digit_starts_no_space)
  from assms(1,3) have "rev s \<noteq> []" "is_digit (hd (rev s))" by (simp_all add: hd_rev)
  then have 2: "trim_start (map rev space_encodings) (rev s) = rev s"
    by (intro trim_start_id digit_ends_no_space)
  from 1 2 show ?thesis by (simp add: TrimSpace_def)
qed

lemma dotted_quad_TrimSpace: "dotted_quad s \<Longrightarrow> TrimSpace s = s"
proof -
  assume "dotted_quad s"
  then obtain a b c d where s: "s = a @ ''.'' @ b @ ''.'' @ c @ ''.'' @ d"
    and o: "octet_text a" "octet_text d" unfolding dotted_quad_def by blast
  from o have a: "a \<noteq> []" "is_digit (hd a)" and d: "d \<noteq> []" "is_digit (last d)"
    by (auto simp: octet_text_def list_all_iff)
  from s a d have "s \<noteq> []" "hd s = hd a" "last s = last d" by simp_all
  with a d show ?thesis by (simp add: TrimSpace_id)
qed

lemma rule_alone_ip:
  "regexp v = Some r \<Longrightarrow> keywordType v = ''ip'' \<Longrightarrow> ipNet v = Some n \<Longrightarrow>
   rule_alone body k v =
     (case FindStringSubmatch r body of
        None \<Rightarrow> None
      | Some s \<Rightarrow>
          (case ParseIP (TrimSpace s) of
             None \<Rightarrow> None
           | Some ip \<Rightarrow> if IPNet_Contains n ip then Some (TrimSpace s) else None))"
  by (simp add: rule_alone_def checkKeywords_def checkKeywords_body_def Let_def
      split: option.splits)

lemma quad_at_matches:
  "quad_at body pre s post \<Longrightarrow> step cidr_re (prevc None pre, s @ post) \<noteq> []"
proof -
  assume "quad_at body pre s post"
  then have "(prevc (prevc None pre) s, post) \<in> set (step cidr_re (prevc None pre, s @ post))"
    unfolding step_cidr_iff quad_at_def by blast
  then show ?thesis by auto
qed

text \<open>
  C2, amended. For a rule of the type \<open>ip\<close> of a compiled rule set, which has the
  network of its keyword, and a body, \<open>checkKeywords\<close> returns a result, and what it
  records for the rule depends on the first dotted quad of the body only, the leftmost
  place where four groups of one to three digits with dots between them stand with no
  word character on either side. When the body has no such place nothing is recorded;
  when the first dotted quad is an address inside the network it is recorded; when it is
  an address outside the network nothing is recorded; when it is no address nothing is
  recorded and there is no error.
\<close>

theorem cidr_rule_first_quad:
  assumes "parseKeywords ds = Inr ks" and "map_of ks k = Some v" and "keywordType v = ''ip''"
  shows "\<exists>n status found.
           ParseCIDR k = Some n \<and> ipNet v = Some n
           \<and> checkKeywords body ks = Inr (status, found)
           \<and> (case FindStringSubmatch cidr_re body of
                 None \<Rightarrow> found k = None \<and> (\<forall>pre s post. \<not> quad_at body pre s post)
               | Some s \<Rightarrow>
                   (\<exists>pre post. quad_at body pre s post
                      \<and> (\<forall>pre2 s2 post2. quad_at body pre2 s2 post2 \<longrightarrow> length pre \<le> length pre2))
                   \<and> found k =
                       (case ParseIP s of
                          None \<Rightarrow> None
                        | Some ip \<Rightarrow> if IPNet_Contains n ip then Some s else None))"
proof -
  from parseKeywords_shape [OF assms(1,2)] assms(3)
  have "regexp v = Some cidr_re \<and> ipNet v \<noteq> None \<and> ipNet v = ParseCIDR k"
    by (elim disjE conjE) simp_all
  then have re: "regexp v = Some cidr_re" and ne: "ipNet v \<noteq> None" and eq: "ipNet v = ParseCIDR k"
    by blast+
  from ne obtain n where n1: "ipNet v = Some n" by (cases "ipNet v") auto
  with eq have n: "ipNet v = Some n" "ParseCIDR k = Some n" by simp_all
  from checkKeywords_compiled [OF assms(1), of body] obtain status
    where c: "checkKeywords body ks =
           Inr (status, \<lambda>k. case map_of ks k of None \<Rightarrow> None | Some v \<Rightarrow> rule_alone body k v)" ..
  let ?found = "\<lambda>k. case map_of ks k of None \<Rightarrow> None | Some v \<Rightarrow> rule_alone body k v"
  have fk: "?found k = rule_alone body k v" using assms(2) by simp
  have "case FindStringSubmatch cidr_re body of
                 None \<Rightarrow> ?found k = None \<and> (\<forall>pre s post. \<not> quad_at body pre s post)
               | Some s \<Rightarrow>
                   (\<exists>pre post. quad_at body pre s post
                      \<and> (\<forall>pre2 s2 post2. quad_at body pre2 s2 post2 \<longrightarrow> length pre \<le> length pre2))
                   \<and> ?found k =
                       (case ParseIP s of
                          None \<Rightarrow> None
                        | Some ip \<Rightarrow> if IPNet_Contains n ip then Some s else None)"
  proof (cases "find_from cidr_re None body")
    case None
    have "\<not> quad_at body pre s post" for pre s post
    proof
      assume q: "quad_at body pre s post"
      then have "body = pre @ s @ post" by (simp add: quad_at_def)
      with None have "step cidr_re (prevc None pre, s @ post) = []"
        unfolding find_from_None_iff by blast
      with quad_at_matches [OF q] show False by simp
    qed
    with None fk show ?thesis
      by (simp add: FindStringSubmatch_def rule_alone_ip [OF re assms(3) n(1)])
  next
    case (Some s)
    from find_from_Some [OF Some] obtain pre post q where b: "body = pre @ s @ post"
      and q: "(q, post) \<in> set (step cidr_re (prevc None pre, s @ post))"
      and f: "\<forall>pre1 suf1. body = pre1 @ suf1 \<and> length pre1 < length pre
              \<longrightarrow> step cidr_re (prevc None pre1, suf1) = []" by blast
    from q obtain s' where "s @ post = s' @ post" and dq: "dotted_quad s'"
      and w: "\<not> word_before (prevc None pre)" "\<not> word_after post"
      unfolding step_cidr_iff by blast
    then have "s' = s" by simp
    with dq w b have qa: "quad_at body pre s post" by (simp add: quad_at_def)
    have first: "length pre \<le> length pre2" if q2: "quad_at body pre2 s2 post2" for pre2 s2 post2
    proof (rule ccontr)
      assume "\<not> length pre \<le> length pre2"
      moreover from q2 have "body = pre2 @ s2 @ post2" by (simp add: quad_at_def)
      ultimately have "step cidr_re (prevc None pre2, s2 @ post2) = []" using f by simp
      with quad_at_matches [OF q2] show False by simp
    qed
    from dq \<open>s' = s\<close> have t: "TrimSpace s = s" by (simp add: dotted_quad_TrimSpace)
    from qa first have "\<exists>pre post. quad_at body pre s post
                      \<and> (\<forall>pre2 s2 post2. quad_at body pre2 s2 post2 \<longrightarrow> length pre \<le> length pre2)"
      by blast
    moreover have "rule_alone body k v =
        (case ParseIP s of
           None \<Rightarrow> None
         | Some ip \<Rightarrow> if IPNet_Contains n ip then Some s else None)"
      using Some t
      by (simp add: FindStringSubmatch_def rule_alone_ip [OF re assms(3) n(1)]
          split: option.splits)
    ultimately show ?thesis using Some fk
      by (simp add: FindStringSubmatch_def)
  qed
  with c n show ?thesis by blast
qed

theorem cidr_rule_first_quad_witness:
  "map_of [(''10.0.0.0/8'',
            \<lparr>regexp = Some cidr_re, keywordType = ''ip'',
             ipNet = Some \<lparr>IP = [10, 0, 0, 0], Mask = [255, 0, 0, 0]\<rparr>, exceptions = []\<rparr>)]
      ''10.0.0.0/8''
     = Some \<lparr>regexp = Some cidr_re, keywordType = ''ip'',
             ipNet = Some \<lparr>IP = [10, 0, 0, 0], Mask = [255, 0, 0, 0]\<rparr>, exceptions = []\<rparr>
   \<and> (\<exists>status found.
         checkKeywords ''from 1.1.1.1 to 10.5.5.5''
           [(''10.0.0.0/8'',
             \<lparr>regexp = Some cidr_re, keywordType = ''ip'',
              ipNet = Some \<lparr>IP = [10, 0, 0, 0], Mask = [255, 0, 0, 0]\<rparr>, exceptions = []\<rparr>)]
           = Inr (status, found)
         \<and> found ''10.0.0.0/8'' = None)
   \<and> (\<exists>pre post. quad_at ''from 1.1.1.1 to 10.5.5.5'' pre ''1.1.1.1'' post)
   \<and> (\<exists>status found.
         checkKeywords ''contact ip 10.5.5.5 for access''
           [(''10.0.0.0/8'',
             \<lparr>regexp = Some cidr_re, keywordType = ''ip'',
              ipNet = Some \<lparr>IP = [10, 0, 0, 0], Mask = [255, 0, 0, 0]\<rparr>, exceptions = []\<rparr>)]
           = Inr (status, found)
         \<and> found ''10.0.0.0/8'' = Some ''10.5.5.5'')"
proof -
  let ?v = "\<lparr>regexp = Some cidr_re, keywordType = ''ip'',
             ipNet = Some \<lparr>IP = [10, 0, 0, 0], Mask = [255, 0, 0, 0]\<rparr>, exceptions = []\<rparr>"
  have m: "map_of [(''10.0.0.0/8'', ?v)] ''10.0.0.0/8'' = Some ?v" by simp
  have t: "keywordType ?v = ''ip''" by simp
  from cidr_rule_first_quad [OF parseKeywords_net10 m t, of "''from 1.1.1.1 to 10.5.5.5''"]
  have 1: "(\<exists>status found.
         checkKeywords ''from 1.1.1.1 to 10.5.5.5'' [(''10.0.0.0/8'', ?v)] = Inr (status, found)
         \<and> found ''10.0.0.0/8'' = None)
     \<and> (\<exists>pre post. quad_at ''from 1.1.1.1 to 10.5.5.5'' pre ''1.1.1.1'' post)"
    by (auto simp: find_1_1_1_1 ParseIP_1_1_1_1 ParseCIDR_10_0_0_0 not_Contains_1_1_1_1)
  from cidr_rule_first_quad [OF parseKeywords_net10 m t, of "''contact ip 10.5.5.5 for access''"]
  have 2: "\<exists>status found.
         checkKeywords ''contact ip 10.5.5.5 for access'' [(''10.0.0.0/8'', ?v)] = Inr (status, found)
         \<and> found ''10.0.0.0/8'' = Some ''10.5.5.5''"
    by (auto simp: find_10_5_5_5 ParseIP_10_5_5_5 ParseCIDR_10_0_0_0 Contains_10_5_5_5)
  from m 1 2 show ?thesis by blast
qed

end
